theory Spec2Isabelle
  imports Main
begin

text \<open>
  A model of the streaming core of the chat client: the two decoders of the event stream,
  \<open>postChatStream\<close> in src/api/chat.js and the read loop of \<open>handleSend\<close> in
  src/components/ChatWindow.jsx, and the two reducers that apply the events to the
  transcript, \<open>onEvent\<close> in src/hooks/useChat.js and the event branches of \<open>handleSend\<close>.
  Asynchronous code is modelled by the steps it takes between two suspensions; an
  exception is an \<open>Inl\<close> result.
\<close>

section \<open>Text primitives of the stream decoder\<close>

text \<open>
  Text is a list of bytes, the UTF-8 encoding of the JavaScript string. The decoder only
  ever inspects line feeds, carriage returns, white space and the two ASCII prefixes
  \<open>event:\<close> and \<open>data:\<close>. White space is what \<open>String.prototype.trim\<close> and the regular
  expression class \<open>\s\<close> accept, the characters WhiteSpace and LineTerminator of the
  language: in one byte the tab, line feed, vertical tab, form feed, carriage return and
  space; in two bytes U+00A0; in three bytes U+1680, U+2000 to U+200A, U+2028, U+2029,
  U+202F, U+205F, U+3000 and U+FEFF.
\<close>

definition LF :: char where
  "LF = CHR 0x0A"

definition CR :: char where
  "CR = CHR 0x0D"

definition is_space :: "char \<Rightarrow> bool" where
  "is_space c = (c = CHR 0x09 \<or> c = LF \<or> c = CHR 0x0B \<or> c = CHR 0x0C \<or> c = CR \<or> c = CHR 0x20)"

definition is_space2 :: "char \<Rightarrow> char \<Rightarrow> bool" where
  "is_space2 a b = (a = CHR 0xC2 \<and> b = CHR 0xA0)"

definition is_space3 :: "char \<Rightarrow> char \<Rightarrow> char \<Rightarrow> bool" where
  "is_space3 a b c =
     ((a = CHR 0xE1 \<and> b = CHR 0x9A \<and> c = CHR 0x80) \<or>
      (a = CHR 0xE2 \<and> b = CHR 0x80 \<and>
         c \<in> set [CHR 0x80, CHR 0x81, CHR 0x82, CHR 0x83, CHR 0x84, CHR 0x85, CHR 0x86, CHR 0x87,
                   CHR 0x88, CHR 0x89, CHR 0x8A, CHR 0xA8, CHR 0xA9, CHR 0xAF]) \<or>
      (a = CHR 0xE2 \<and> b = CHR 0x81 \<and> c = CHR 0x9F) \<or>
      (a = CHR 0xE3 \<and> b = CHR 0x80 \<and> c = CHR 0x80) \<or>
      (a = CHR 0xEF \<and> b = CHR 0xBB \<and> c = CHR 0xBF))"

text \<open>Removing the white space at the start of a text, and at the start of a reversed
  text, where the bytes of a character come last byte first.\<close>

fun trim_start :: "string \<Rightarrow> string" where
  "trim_start (a # b # c # r) =
     (if is_space a then trim_start (b # c # r)
      else if is_space2 a b then trim_start (c # r)
      else if is_space3 a b c then trim_start r
      else a # b # c # r)"
| "trim_start [a, b] =
     (if is_space a then trim_start [b] else if is_space2 a b then [] else [a, b])"
| "trim_start [a] = (if is_space a then [] else [a])"
| "trim_start [] = []"

fun trim_start_rev :: "string \<Rightarrow> string" where
  "trim_start_rev (c # b # a # r) =
     (if is_space c then trim_start_rev (b # a # r)
      else if is_space2 b c then trim_start_rev (a # r)
      else if is_space3 a b c then trim_start_rev r
      else c # b # a # r)"
| "trim_start_rev [c, b] =
     (if is_space c then trim_start_rev [b] else if is_space2 b c then [] else [c, b])"
| "trim_start_rev [c] = (if is_space c then [] else [c])"
| "trim_start_rev [] = []"

definition trim :: "string \<Rightarrow> string" where
  "trim s = rev (trim_start_rev (rev (trim_start s)))"

definition startsWith :: "string \<Rightarrow> string \<Rightarrow> bool" where
  "startsWith s p = (take (length p) s = p)"

text \<open>\<open>line.replace(/^event:\s*/, "")\<close> on a line that starts with the prefix \<open>p\<close>:
  the prefix and the white space after it are removed.\<close>

definition strip_prefix :: "string \<Rightarrow> string \<Rightarrow> string" where
  "strip_prefix p line = trim_start (drop (length p) line)"

text \<open>\<open>Array.prototype.join("\n")\<close> on strings.\<close>

fun join_lines :: "string list \<Rightarrow> string" where
  "join_lines [] = []"
| "join_lines [l] = l"
| "join_lines (l # m # ls) = l @ LF # join_lines (m # ls)"

subsection \<open>Splitting on a regular expression\<close>

text \<open>
  \<open>match_nl\<close> is the regular expression \<open>\r?\n\<close> tried at the head of a text: the length
  of the match, if there is one. \<open>match_blank\<close> is \<open>\r?\n\r?\n\<close>, two of them in a row.
\<close>

definition match_nl :: "string \<Rightarrow> nat option" where
  "match_nl s =
     (case s of
        [] \<Rightarrow> None
      | c # r \<Rightarrow>
          if c = LF then Some 1
          else if c = CR then (case r of [] \<Rightarrow> None | d # _ \<Rightarrow> if d = LF then Some 2 else None)
          else None)"

definition match_blank :: "string \<Rightarrow> nat option" where
  "match_blank s =
     (case match_nl s of
        None \<Rightarrow> None
      | Some a \<Rightarrow> (case match_nl (drop a s) of None \<Rightarrow> None | Some b \<Rightarrow> Some (a + b)))"

text \<open>
  \<open>String.prototype.split\<close> with a regular expression that matches no empty text: the
  text is scanned from the left; where the expression matches, the segment collected so
  far (\<open>acc\<close>, reversed) is closed and the scan goes on behind the match; elsewhere the
  character joins the segment. The result always has a last segment, possibly empty.
\<close>

fun split_from :: "(string \<Rightarrow> nat option) \<Rightarrow> string \<Rightarrow> string \<Rightarrow> string list" where
  "split_from m acc [] = [rev acc]"
| "split_from m acc (c # cs) =
     (case m (c # cs) of
        Some (Suc n) \<Rightarrow> rev acc # split_from m [] (drop n cs)
      | _ \<Rightarrow> split_from m (c # acc) cs)"

definition split_blocks :: "string \<Rightarrow> string list" where
  "split_blocks s = split_from match_blank [] s"

definition split_lines :: "string \<Rightarrow> string list" where
  "split_lines s = split_from match_nl [] s"

text \<open>\<open>block.split(/\r?\n/).map((l) => l.trim()).filter(Boolean)\<close>\<close>

definition block_lines :: "string \<Rightarrow> string list" where
  "block_lines block = filter (\<lambda>l. l \<noteq> []) (map trim (split_lines block))"


section \<open>JavaScript values\<close>

text \<open>
  The values \<open>JSON.parse\<close> can return, and \<open>undefined\<close> for a missing property. Numbers
  are IEEE doubles in the program; here their type \<open>'n\<close> is left open and the few
  operations the program applies to them come with the runtime below. An object is the
  list of its own properties.
\<close>

datatype 'n jsval =
    JUndefined
  | JNull
  | JBool bool
  | JNum 'n
  | JStr string
  | JArr "'n jsval list"
  | JObj "(string \<times> 'n jsval) list"

datatype js_error =
    TypeError
  | AbortError
  | NetworkError
  | RequestFailed string

text \<open>
  What the program takes from its host: \<open>JSON.parse\<close> (\<open>None\<close> when it throws), the
  number operations, the clock, and the text that \<open>${err.message || err}\<close> renders for
  an error.
\<close>

record 'n runtime =
  JSON_parse :: "string \<Rightarrow> 'n jsval option"
  num_falsy :: "'n \<Rightarrow> bool"
  num_add :: "'n \<Rightarrow> 'n \<Rightarrow> 'n"
  num_show :: "'n \<Rightarrow> string"
  ToNumber :: "'n jsval \<Rightarrow> 'n"
  Date_now :: int
  err_text :: "js_error \<Rightarrow> string"

fun truthy :: "'n runtime \<Rightarrow> 'n jsval \<Rightarrow> bool" where
  "truthy rt JUndefined = False"
| "truthy rt JNull = False"
| "truthy rt (JBool b) = b"
| "truthy rt (JNum n) = (\<not> num_falsy rt n)"
| "truthy rt (JStr s) = (s \<noteq> [])"
| "truthy rt (JArr xs) = True"
| "truthy rt (JObj kvs) = True"

text \<open>\<open>a || b\<close>\<close>

definition js_or :: "'n runtime \<Rightarrow> 'n jsval \<Rightarrow> 'n jsval \<Rightarrow> 'n jsval" where
  "js_or rt a b = (if truthy rt a then a else b)"

text \<open>\<open>v?.k\<close>: the own property \<open>k\<close> of an object, \<open>undefined\<close> on everything else. None
  of the keys the program reads is inherited from a prototype.\<close>

fun opt_prop :: "'n jsval \<Rightarrow> string \<Rightarrow> 'n jsval" where
  "opt_prop (JObj kvs) k = (case map_of kvs k of Some v \<Rightarrow> v | None \<Rightarrow> JUndefined)"
| "opt_prop v k = JUndefined"

text \<open>\<open>v.k\<close>: as above, but reading a property of \<open>null\<close> or \<open>undefined\<close> throws.\<close>

fun strict_prop :: "'n jsval \<Rightarrow> string \<Rightarrow> js_error + 'n jsval" where
  "strict_prop JNull k = Inl TypeError"
| "strict_prop JUndefined k = Inl TypeError"
| "strict_prop v k = Inr (opt_prop v k)"

text \<open>\<open>typeof v === "object"\<close>\<close>

fun typeof_object :: "'n jsval \<Rightarrow> bool" where
  "typeof_object JNull = True"
| "typeof_object (JArr xs) = True"
| "typeof_object (JObj kvs) = True"
| "typeof_object v = False"

text \<open>
  \<open>String(v)\<close>, also what a template literal and a string concatenation apply. A parsed
  object prints as \<open>[object Object]\<close>, unless it has an own property \<open>toString\<close>: that
  one is no function, and the conversion throws. An array prints its elements joined by
  commas, \<open>null\<close> and \<open>undefined\<close> elements as nothing.
\<close>

fun to_string :: "'n runtime \<Rightarrow> 'n jsval \<Rightarrow> js_error + string"
  and join_elems :: "'n runtime \<Rightarrow> 'n jsval list \<Rightarrow> js_error + string" where
  "to_string rt JUndefined = Inr ''undefined''"
| "to_string rt JNull = Inr ''null''"
| "to_string rt (JBool b) = Inr (if b then ''true'' else ''false'')"
| "to_string rt (JNum n) = Inr (num_show rt n)"
| "to_string rt (JStr s) = Inr s"
| "to_string rt (JArr xs) = join_elems rt xs"
| "to_string rt (JObj kvs) =
     (if map_of kvs ''toString'' \<noteq> None then Inl TypeError else Inr ''[object Object]'')"
| "join_elems rt [] = Inr []"
| "join_elems rt (x # xs) =
     (case (if x = JNull \<or> x = JUndefined then Inr [] else to_string rt x) of
        Inl e \<Rightarrow> Inl e
      | Inr s \<Rightarrow>
          if xs = [] then Inr s
          else (case join_elems rt xs of Inl e \<Rightarrow> Inl e | Inr r \<Rightarrow> Inr (s @ '','' @ r)))"

text \<open>
  \<open>a + b\<close>: objects and arrays are first turned into their text; with a string on
  either side the texts are concatenated, otherwise the operands are added as numbers.
\<close>

fun to_primitive :: "'n runtime \<Rightarrow> 'n jsval \<Rightarrow> js_error + 'n jsval" where
  "to_primitive rt (JArr xs) = map_sum id JStr (to_string rt (JArr xs))"
| "to_primitive rt (JObj kvs) = map_sum id JStr (to_string rt (JObj kvs))"
| "to_primitive rt v = Inr v"

fun is_string :: "'n jsval \<Rightarrow> bool" where
  "is_string (JStr s) = True"
| "is_string v = False"

fun to_number :: "'n runtime \<Rightarrow> 'n jsval \<Rightarrow> 'n" where
  "to_number rt (JNum n) = n"
| "to_number rt v = ToNumber rt v"

definition js_plus :: "'n runtime \<Rightarrow> 'n jsval \<Rightarrow> 'n jsval \<Rightarrow> js_error + 'n jsval" where
  "js_plus rt a b =
     (case to_primitive rt a of
        Inl e \<Rightarrow> Inl e
      | Inr pa \<Rightarrow>
          (case to_primitive rt b of
             Inl e \<Rightarrow> Inl e
           | Inr pb \<Rightarrow>
               if is_string pa \<or> is_string pb then
                 (case (to_string rt pa, to_string rt pb) of
                    (Inr x, Inr y) \<Rightarrow> Inr (JStr (x @ y))
                  | (Inl e, _) \<Rightarrow> Inl e
                  | (_, Inl e) \<Rightarrow> Inl e)
               else Inr (JNum (num_add rt (to_number rt pa) (to_number rt pb)))))"


text \<open>Running a step that may throw after another one.\<close>

definition and_then :: "js_error + 'a \<Rightarrow> ('a \<Rightarrow> js_error + 'b) \<Rightarrow> js_error + 'b" where
  "and_then r f = (case r of Inl e \<Rightarrow> Inl e | Inr x \<Rightarrow> f x)"

section \<open>Event blocks\<close>

text \<open>
  Both decoders walk the trimmed, non-empty lines of a block with two variables, \<open>evt\<close>
  (initially \<open>null\<close>) and \<open>dataLines\<close> (initially empty). \<open>api_line\<close> is the loop body in
  \<open>postChatStream\<close> (src/api/chat.js), \<open>cw_line\<close> the one in \<open>handleSend\<close>
  (src/components/ChatWindow.jsx), which has a third branch.
\<close>

definition api_line :: "string option \<times> string list \<Rightarrow> string \<Rightarrow> string option \<times> string list" where
  "api_line vars line =
     (case vars of (evt, dataLines) \<Rightarrow>
        if startsWith line ''event:'' then (Some (strip_prefix ''event:'' line), dataLines)
        else if startsWith line ''data:'' then (evt, dataLines @ [strip_prefix ''data:'' line])
        else (evt, dataLines))"

definition cw_line :: "string option \<times> string list \<Rightarrow> string \<Rightarrow> string option \<times> string list" where
  "cw_line vars line =
     (case vars of (evt, dataLines) \<Rightarrow>
        if startsWith line ''event:'' then (Some (strip_prefix ''event:'' line), dataLines)
        else if startsWith line ''data:'' then (evt, dataLines @ [strip_prefix ''data:'' line])
        else (evt, dataLines @ [line]))"

definition api_scan :: "string \<Rightarrow> string option \<times> string list" where
  "api_scan block = foldl api_line (None, []) (block_lines block)"

definition cw_scan :: "string \<Rightarrow> string option \<times> string list" where
  "cw_scan block = foldl cw_line (None, []) (block_lines block)"

text \<open>\<open>dataLines.join("\n")\<close>, the raw payload of a block.\<close>

definition api_dataRaw :: "string \<Rightarrow> string" where
  "api_dataRaw block = join_lines (snd (api_scan block))"

definition cw_rawData :: "string \<Rightarrow> string" where
  "cw_rawData block = join_lines (snd (cw_scan block))"

text \<open>\<open>let parsed = raw; try { parsed = JSON.parse(raw); } catch (e) { }\<close>\<close>

definition parse_or_raw :: "'n runtime \<Rightarrow> string \<Rightarrow> 'n jsval" where
  "parse_or_raw rt raw = (case JSON_parse rt raw of Some v \<Rightarrow> v | None \<Rightarrow> JStr raw)"

text \<open>\<open>evt || "message"\<close>: \<open>null\<close> and the empty name give the default.\<close>

definition effective_event :: "string option \<Rightarrow> string" where
  "effective_event evt = (case evt of None \<Rightarrow> ''message'' | Some e \<Rightarrow> if e = [] then ''message'' else e)"

record 'n stream_event =
  event :: string
  data :: "'n jsval"

definition api_block :: "'n runtime \<Rightarrow> string \<Rightarrow> 'n stream_event" where
  "api_block rt block =
     \<lparr>event = effective_event (fst (api_scan block)), data = parse_or_raw rt (api_dataRaw block)\<rparr>"

definition cw_block :: "'n runtime \<Rightarrow> string \<Rightarrow> 'n stream_event" where
  "cw_block rt block =
     \<lparr>event = effective_event (fst (cw_scan block)), data = parse_or_raw rt (cw_rawData block)\<rparr>"

section \<open>postChatStream (src/api/chat.js)\<close>

text \<open>
  The variables of the read loop, and the calls of \<open>onEvent\<close> made so far, in order.
  A chunk is the text \<open>decoder.decode(value, { stream: true })\<close> returns for one read.
\<close>

record 'n reader =
  rd_buffer :: string
  doneData :: "'n jsval"
  emitted :: "'n stream_event list"

definition reader_init :: "'n reader" where
  "reader_init = \<lparr>rd_buffer = [], doneData = JNull, emitted = []\<rparr>"

text \<open>One block: call \<open>onEvent\<close>, and keep the payload of a \<open>done\<close> event.\<close>

definition api_emit :: "'n runtime \<Rightarrow> 'n reader \<Rightarrow> string \<Rightarrow> 'n reader" where
  "api_emit rt r block =
     (let ev = api_block rt block
      in r\<lparr>emitted := emitted r @ [ev],
            doneData := (if event ev = ''done'' then data ev else doneData r)\<rparr>)"

text \<open>One turn of the \<open>while\<close> loop: \<open>buffer += chunk\<close>, \<open>blocks = buffer.split(...)\<close>,
  \<open>buffer = blocks.pop()\<close>, then the blocks in order.\<close>

definition api_chunk :: "'n runtime \<Rightarrow> 'n reader \<Rightarrow> string \<Rightarrow> 'n reader" where
  "api_chunk rt r chunk =
     (let blocks = split_blocks (rd_buffer r @ chunk)
      in foldl (api_emit rt) (r\<lparr>rd_buffer := last blocks\<rparr>) (butlast blocks))"

text \<open>After the loop: \<open>if (buffer.trim()) { ... }\<close>\<close>

definition api_finish :: "'n runtime \<Rightarrow> 'n reader \<Rightarrow> 'n reader" where
  "api_finish rt r = (if trim (rd_buffer r) \<noteq> [] then api_emit rt r (rd_buffer r) else r)"

definition read_stream :: "'n runtime \<Rightarrow> string list \<Rightarrow> 'n reader" where
  "read_stream rt chunks = api_finish rt (foldl (api_chunk rt) reader_init chunks)"

text \<open>
  A response: \<open>resp.ok\<close>, the text \<open>${resp.status} ${resp.statusText} ${txt}\<close>, the chunks
  the body delivers, and the error with which a read is rejected after them, if any
  (\<open>None\<close>: the body ends).
\<close>

record response =
  ok :: bool
  status_text :: string
  body :: "string list"
  failure :: "js_error option"

text \<open>
  The events passed to \<open>onEvent\<close>, and what the returned promise settles to: rejected
  with an error, or resolved with \<open>doneData\<close>. \<open>fetch\<close> itself may reject.
\<close>

definition postChatStream ::
    "'n runtime \<Rightarrow> js_error + response \<Rightarrow> 'n stream_event list \<times> (js_error + 'n jsval)" where
  "postChatStream rt fetched =
     (case fetched of
        Inl e \<Rightarrow> ([], Inl e)
      | Inr resp \<Rightarrow>
          if \<not> ok resp then ([], Inl (RequestFailed (''Stream request failed: '' @ status_text resp)))
          else
            (case failure resp of
               Some e \<Rightarrow> (emitted (foldl (api_chunk rt) reader_init (body resp)), Inl e)
             | None \<Rightarrow>
                 (let r = read_stream rt (body resp) in (emitted r, Inr (doneData r)))))"


section \<open>Conversation turns\<close>

text \<open>A turn \<open>{ role, text, ts }\<close>; \<open>ts\<close> is absent on the turns the hook pushes
  without one.\<close>

record 'n turn =
  msg_role :: string
  msg_text :: "'n jsval"
  msg_ts :: "int option"

text \<open>\<open>Array.prototype.lastIndexOf\<close> and \<open>findIndex\<close>; \<open>None\<close> is their \<open>-1\<close>.\<close>

fun lastIndexOf :: "'a list \<Rightarrow> 'a \<Rightarrow> nat option" where
  "lastIndexOf [] x = None"
| "lastIndexOf (y # ys) x =
     (case lastIndexOf ys x of
        Some i \<Rightarrow> Some (Suc i)
      | None \<Rightarrow> if y = x then Some 0 else None)"

fun findIndex :: "('a \<Rightarrow> bool) \<Rightarrow> 'a list \<Rightarrow> nat option" where
  "findIndex P [] = None"
| "findIndex P (x # xs) = (if P x then Some 0 else map_option Suc (findIndex P xs))"

text \<open>Running a handler over a list of inputs until one throws: the state reached, and
  the error if there was one.\<close>

fun run_events :: "('s \<Rightarrow> 'a \<Rightarrow> js_error + 's) \<Rightarrow> 's \<Rightarrow> 'a list \<Rightarrow> 's \<times> js_error option" where
  "run_events f s [] = (s, None)"
| "run_events f s (x # xs) =
     (case f s x of Inl e \<Rightarrow> (s, Some e) | Inr s' \<Rightarrow> run_events f s' xs)"

section \<open>The hook useChat (src/hooks/useChat.js)\<close>

text \<open>
  The state of the hook. \<open>abortRef\<close> holds a controller or \<open>null\<close>; controllers are
  numbered in the order of their creation, and \<open>aborted\<close> are those whose \<open>abort()\<close> has
  been called. A step fails when \<open>onEvent\<close> or one of its state update functions throws.
\<close>

record 'n chat_hook =
  sessionId :: "'n jsval"
  messages :: "'n turn list"
  loading :: bool
  sources :: "'n jsval"
  abortRef :: "nat option"
  controllers :: nat
  aborted :: "nat set"

text \<open>The state after \<open>useChat()\<close> has been set up with its defaults.\<close>

definition useChat_init :: "'n chat_hook" where
  "useChat_init =
     \<lparr>sessionId = JNull, messages = [], loading = False, sources = JArr [], abortRef = None,
      controllers = 0, aborted = {}\<rparr>"

definition appendMessage :: "'n runtime \<Rightarrow> string \<Rightarrow> 'n jsval \<Rightarrow> 'n chat_hook \<Rightarrow> 'n chat_hook" where
  "appendMessage rt r t st =
     st\<lparr>messages := messages st @ [\<lparr>msg_role = r, msg_text = t, msg_ts = Some (Date_now rt)\<rparr>]\<rparr>"

text \<open>The update of the \<open>message\<close> branch (lines 50-62).\<close>

definition append_data :: "'n runtime \<Rightarrow> 'n jsval \<Rightarrow> 'n turn list \<Rightarrow> js_error + 'n turn list" where
  "append_data rt d prev =
     (case lastIndexOf (map msg_role prev) ''assistant'' of
        None \<Rightarrow>
          Inr (prev @ [\<lparr>msg_role = ''assistant'', msg_text = js_or rt d (JStr []), msg_ts = None\<rparr>])
      | Some idx \<Rightarrow>
          and_then (case d of JStr s \<Rightarrow> Inr s | _ \<Rightarrow> to_string rt d) (\<lambda>s.
          and_then (js_plus rt (js_or rt (msg_text (prev ! idx)) (JStr [])) (JStr s)) (\<lambda>t.
            Inr (prev[idx := (prev ! idx)\<lparr>msg_text := t\<rparr>]))))"

text \<open>The update of the \<open>done\<close> branch (lines 68-77), also used after the stream
  (lines 106-112).\<close>

definition replace_answer :: "'n jsval \<Rightarrow> 'n turn list \<Rightarrow> 'n turn list" where
  "replace_answer answer prev =
     (case lastIndexOf (map msg_role prev) ''assistant'' of
        None \<Rightarrow> prev @ [\<lparr>msg_role = ''assistant'', msg_text = answer, msg_ts = None\<rparr>]
      | Some idx \<Rightarrow> prev[idx := (prev ! idx)\<lparr>msg_text := answer\<rparr>])"

text \<open>The update of the \<open>error\<close> branch (lines 83-92).\<close>

definition append_error :: "'n runtime \<Rightarrow> string \<Rightarrow> 'n turn list \<Rightarrow> js_error + 'n turn list" where
  "append_error rt errText prev =
     (case lastIndexOf (map msg_role prev) ''assistant'' of
        Some idx \<Rightarrow>
          and_then (js_plus rt (js_or rt (msg_text (prev ! idx)) (JStr []))
                      (JStr ([LF, LF] @ ''[Error: '' @ errText @ '']''))) (\<lambda>t.
            Inr (prev[idx := (prev ! idx)\<lparr>msg_text := t\<rparr>]))
      | None \<Rightarrow>
          Inr (prev @ [\<lparr>msg_role = ''assistant'', msg_text = JStr (''[Error: '' @ errText @ '']''),
                        msg_ts = None\<rparr>]))"

fun is_array :: "'n jsval \<Rightarrow> bool" where
  "is_array (JArr xs) = True"
| "is_array v = False"

definition onEvent :: "'n runtime \<Rightarrow> 'n chat_hook \<Rightarrow> 'n stream_event \<Rightarrow> js_error + 'n chat_hook" where
  "onEvent rt st ev =
     (if event ev = ''session'' \<and> truthy rt (opt_prop (data ev) ''sessionId'') then
        Inr (st\<lparr>sessionId := opt_prop (data ev) ''sessionId''\<rparr>)
      else if event ev = ''message'' then
        and_then (append_data rt (data ev) (messages st)) (\<lambda>ms. Inr (st\<lparr>messages := ms\<rparr>))
      else if event ev = ''done'' then
        (let st1 = (if truthy rt (opt_prop (data ev) ''sessionId'')
                    then st\<lparr>sessionId := opt_prop (data ev) ''sessionId''\<rparr> else st);
             st2 = (if truthy rt (opt_prop (data ev) ''answer'')
                    then st1\<lparr>messages := replace_answer (opt_prop (data ev) ''answer'') (messages st1)\<rparr>
                    else st1);
             st3 = (if is_array (opt_prop (data ev) ''sources'')
                    then st2\<lparr>sources := opt_prop (data ev) ''sources''\<rparr> else st2)
         in Inr (st3\<lparr>loading := False\<rparr>))
      else if event ev = ''error'' then
        and_then (if truthy rt (opt_prop (data ev) ''error'')
                  then to_string rt (opt_prop (data ev) ''error'')
                  else Inr ''Unknown stream error'') (\<lambda>errText.
        and_then (append_error rt errText (messages st)) (\<lambda>ms.
          Inr (st\<lparr>messages := ms, loading := False\<rparr>)))
      else Inr st)"

text \<open>
  \<open>send({ message, stream: true })\<close> in its phases: up to the call of
  \<open>postChatStream\<close>; after the promise has resolved (lines 104-117, \<open>sid\<close> is the
  \<open>sessionId\<close> the closure of \<open>send\<close> has captured); after it was rejected (the \<open>catch\<close>).
\<close>

definition send_start :: "'n runtime \<Rightarrow> string \<Rightarrow> 'n chat_hook \<Rightarrow> 'n chat_hook" where
  "send_start rt message st =
     (let st1 = appendMessage rt ''user'' (JStr message) (st\<lparr>loading := True\<rparr>);
          st2 = st1\<lparr>abortRef := Some (controllers st1), controllers := Suc (controllers st1)\<rparr>
      in appendMessage rt ''assistant'' (JStr []) st2)"

definition send_resolved :: "'n runtime \<Rightarrow> 'n jsval \<Rightarrow> 'n jsval \<Rightarrow> 'n chat_hook \<Rightarrow> 'n chat_hook" where
  "send_resolved rt sid dd st =
     (let st1 = (if truthy rt (opt_prop dd ''answer'')
                 then st\<lparr>messages := replace_answer (opt_prop dd ''answer'') (messages st)\<rparr> else st);
          st2 = (if truthy rt (opt_prop dd ''sources'')
                 then st1\<lparr>sources := opt_prop dd ''sources''\<rparr> else st1)
      in st2\<lparr>sessionId := js_or rt (js_or rt (sessionId st2) (opt_prop dd ''sessionId'')) sid,
             loading := False\<rparr>)"

definition send_rejected :: "'n runtime \<Rightarrow> js_error \<Rightarrow> 'n chat_hook \<Rightarrow> 'n chat_hook" where
  "send_rejected rt err st =
     appendMessage rt ''assistant'' (JStr (''Error: '' @ err_text rt err)) (st\<lparr>loading := False\<rparr>)"

text \<open>
  The calls of \<open>onEvent\<close> that \<open>postChatStream\<close> makes for a response, applied in order
  (lines 97-102); the run ends where a step fails, with the state reached there.
\<close>

definition send_stream ::
    "'n runtime \<Rightarrow> js_error + response \<Rightarrow> 'n chat_hook \<Rightarrow> 'n chat_hook \<times> js_error option" where
  "send_stream rt fetched st = run_events (onEvent rt) st (fst (postChatStream rt fetched))"

definition cancelStream :: "'n chat_hook \<Rightarrow> 'n chat_hook" where
  "cancelStream st =
     (case abortRef st of
        None \<Rightarrow> st
      | Some c \<Rightarrow> st\<lparr>aborted := insert c (aborted st), abortRef := None, loading := False\<rparr>)"

section \<open>The component ChatWindow (src/components/ChatWindow.jsx)\<close>

text \<open>The state of the component, with its controllers as in the hook, and the two
  variables \<open>buffer\<close> and \<open>assistantBuffer\<close> that belong to one call of \<open>handleSend\<close>.\<close>

record 'n chat_window =
  cw_messages :: "'n turn list"
  input :: string
  isStreaming :: bool
  streamIndicator :: bool
  streamingAbortController :: "nat option"
  cw_controllers :: nat
  cw_aborted :: "nat set"

record 'n stream_vars =
  cw_buffer :: string
  assistantBuffer :: "'n jsval"

text \<open>The state of a newly mounted component.\<close>

definition ChatWindow_init :: "'n chat_window" where
  "ChatWindow_init =
     \<lparr>cw_messages = [], input = [], isStreaming = False, streamIndicator = False,
      streamingAbortController = None, cw_controllers = 0, cw_aborted = {}\<rparr>"

text \<open>The effect on \<open>sessionId\<close> (lines 25-56): the turn list becomes empty without a
  session or when the request fails, and the loaded \<open>j.messages || []\<close> otherwise.\<close>

definition load_session :: "string option \<Rightarrow> js_error + 'n turn list \<Rightarrow> 'n chat_window \<Rightarrow> 'n chat_window" where
  "load_session sid loaded st =
     (if sid = None \<or> sid = Some [] then st\<lparr>cw_messages := []\<rparr>
      else (case loaded of
              Inr ms \<Rightarrow> st\<lparr>cw_messages := ms\<rparr>
            | Inl e \<Rightarrow> st\<lparr>cw_messages := []\<rparr>))"

definition cw_appendMessage :: "'n turn \<Rightarrow> 'n chat_window \<Rightarrow> 'n chat_window" where
  "cw_appendMessage msg st = st\<lparr>cw_messages := cw_messages st @ [msg]\<rparr>"

definition replaceLastAssistantText :: "'n runtime \<Rightarrow> 'n jsval \<Rightarrow> 'n chat_window \<Rightarrow> 'n chat_window" where
  "replaceLastAssistantText rt newText st =
     (let m = cw_messages st
      in case findIndex (\<lambda>x. msg_role x = ''assistant'' \<or> msg_role x = ''system'') (rev m) of
           None \<Rightarrow>
             st\<lparr>cw_messages :=
                  m @ [\<lparr>msg_role = ''assistant'', msg_text = newText, msg_ts = Some (Date_now rt)\<rparr>]\<rparr>
         | Some idx \<Rightarrow>
             (let pos = length m - 1 - idx
              in st\<lparr>cw_messages :=
                      m[pos := (m ! pos)\<lparr>msg_text := newText, msg_ts := Some (Date_now rt)\<rparr>]\<rparr>))"

text \<open>The six characters that open the text of the system turns, as the template
  literals at lines 138, 220 and 285 hold them (U+201A, U+00F6, U+2020, U+00D4, U+220F,
  U+00E8), in UTF-8.\<close>

definition warning_sign :: string where
  "warning_sign =
     [CHR 0xE2, CHR 0x80, CHR 0x9A, CHR 0xC3, CHR 0xB6, CHR 0xE2, CHR 0x80, CHR 0xA0,
      CHR 0xC3, CHR 0x94, CHR 0xE2, CHR 0x88, CHR 0x8F, CHR 0xC3, CHR 0xA8]"

text \<open>\<open>typeof parsed === "object" ? parsed.delta || parsed.data || "" : parsed\<close>\<close>

definition delta_of :: "'n runtime \<Rightarrow> 'n jsval \<Rightarrow> js_error + 'n jsval" where
  "delta_of rt parsed =
     (if typeof_object parsed then
        and_then (strict_prop parsed ''delta'') (\<lambda>d.
          if truthy rt d then Inr d
          else and_then (strict_prop parsed ''data'') (\<lambda>x. Inr (js_or rt x (JStr []))))
      else Inr parsed)"

text \<open>\<open>typeof parsed === "object" ? parsed.answer || parsed.text || assistantBuffer : parsed\<close>\<close>

definition finalText_of :: "'n runtime \<Rightarrow> 'n jsval \<Rightarrow> 'n jsval \<Rightarrow> js_error + 'n jsval" where
  "finalText_of rt parsed buf =
     (if typeof_object parsed then
        and_then (strict_prop parsed ''answer'') (\<lambda>a.
          if truthy rt a then Inr a
          else and_then (strict_prop parsed ''text'') (\<lambda>x. Inr (js_or rt x buf)))
      else Inr parsed)"

text \<open>The two branches that the loop and the code after it share.\<close>

definition on_message ::
    "'n runtime \<Rightarrow> 'n jsval \<Rightarrow> 'n stream_vars \<times> 'n chat_window \<Rightarrow> js_error + 'n stream_vars \<times> 'n chat_window" where
  "on_message rt parsed s =
     (case s of (vars, st) \<Rightarrow>
        and_then (delta_of rt parsed) (\<lambda>delta.
        and_then (js_plus rt (assistantBuffer vars) delta) (\<lambda>b.
          Inr (vars\<lparr>assistantBuffer := b\<rparr>, replaceLastAssistantText rt b st))))"

definition on_done ::
    "'n runtime \<Rightarrow> 'n jsval \<Rightarrow> 'n stream_vars \<times> 'n chat_window \<Rightarrow> js_error + 'n stream_vars \<times> 'n chat_window" where
  "on_done rt parsed s =
     (case s of (vars, st) \<Rightarrow>
        and_then (finalText_of rt parsed (assistantBuffer vars)) (\<lambda>finalText.
          Inr (vars\<lparr>assistantBuffer := finalText\<rparr>, replaceLastAssistantText rt finalText st)))"

text \<open>The handling of one event inside the loop (lines 189-226).\<close>

definition handle_event ::
    "'n runtime \<Rightarrow> 'n stream_vars \<times> 'n chat_window \<Rightarrow> 'n stream_event \<Rightarrow> js_error + 'n stream_vars \<times> 'n chat_window" where
  "handle_event rt s ev =
     (if event ev = ''session'' then Inr s
      else if event ev = ''message'' then on_message rt (data ev) s
      else if event ev = ''done'' then on_done rt (data ev) s
      else if event ev = ''error'' then
        and_then (to_string rt (js_or rt (opt_prop (data ev) ''error'') (data ev))) (\<lambda>t.
          Inr (fst s, cw_appendMessage
                 \<lparr>msg_role = ''system'', msg_text = JStr (warning_sign @ '' '' @ t),
                  msg_ts = Some (Date_now rt)\<rparr> (snd s)))
      else Inr s)"

text \<open>One turn of the \<open>while\<close> loop (lines 156-227), and the loop over the chunks that
  the body delivers; an exception leaves both.\<close>

definition cw_chunk ::
    "'n runtime \<Rightarrow> 'n stream_vars \<times> 'n chat_window \<Rightarrow> string \<Rightarrow> ('n stream_vars \<times> 'n chat_window) \<times> js_error option" where
  "cw_chunk rt s chunk =
     (let blocks = split_blocks (cw_buffer (fst s) @ chunk)
      in run_events (handle_event rt) ((fst s)\<lparr>cw_buffer := last blocks\<rparr>, snd s)
           (map (cw_block rt) (butlast blocks)))"

fun cw_read ::
    "'n runtime \<Rightarrow> 'n stream_vars \<times> 'n chat_window \<Rightarrow> string list \<Rightarrow> ('n stream_vars \<times> 'n chat_window) \<times> js_error option" where
  "cw_read rt s [] = (s, None)"
| "cw_read rt s (chunk # chunks) =
     (case cw_chunk rt s chunk of
        (s', Some e) \<Rightarrow> (s', Some e)
      | (s', None) \<Rightarrow> cw_read rt s' chunks)"

text \<open>The leftover buffer after the loop (lines 231-270): only \<open>message\<close> and \<open>done\<close> are
  handled, and an exception is logged and dropped.\<close>

definition cw_leftover :: "'n runtime \<Rightarrow> 'n stream_vars \<times> 'n chat_window \<Rightarrow> 'n stream_vars \<times> 'n chat_window" where
  "cw_leftover rt s =
     (if trim (cw_buffer (fst s)) \<noteq> [] then
        (let ev = cw_block rt (cw_buffer (fst s))
         in case (if event ev = ''message'' then on_message rt (data ev) s
                  else if event ev = ''done'' then on_done rt (data ev) s
                  else Inr s) of
              Inr s' \<Rightarrow> s'
            | Inl e \<Rightarrow> s)
      else s)"

text \<open>The three ways out of \<open>handleSend\<close>: the end of the \<open>try\<close> block (lines 272-275),
  the \<open>catch\<close> (lines 279-291) and the response that is not \<open>ok\<close> (lines 132-144).\<close>

definition cw_finish :: "'n chat_window \<Rightarrow> 'n chat_window" where
  "cw_finish st = st\<lparr>isStreaming := False, streamIndicator := False, streamingAbortController := None\<rparr>"

definition cw_catch :: "'n runtime \<Rightarrow> js_error \<Rightarrow> 'n chat_window \<Rightarrow> 'n chat_window" where
  "cw_catch rt err st =
     cw_finish
       (cw_appendMessage
          \<lparr>msg_role = ''system'', msg_text = JStr (warning_sign @ '' Stream error: '' @ err_text rt err),
           msg_ts = Some (Date_now rt)\<rparr>
          (replaceLastAssistantText rt (JStr []) st))"

definition cw_not_ok :: "'n runtime \<Rightarrow> response \<Rightarrow> 'n chat_window \<Rightarrow> 'n chat_window" where
  "cw_not_ok rt resp st =
     (cw_appendMessage
        \<lparr>msg_role = ''system'', msg_text = JStr (warning_sign @ '' Send failed: '' @ status_text resp),
         msg_ts = Some (Date_now rt)\<rparr>
        (replaceLastAssistantText rt (JStr []) st))\<lparr>isStreaming := False, streamIndicator := False\<rparr>"

text \<open>The start of \<open>handleSend\<close> (lines 105-122), once the input and the session have
  passed the two checks.\<close>

definition cw_start :: "'n runtime \<Rightarrow> string \<Rightarrow> 'n chat_window \<Rightarrow> 'n chat_window" where
  "cw_start rt txt st =
     (let st1 = cw_appendMessage \<lparr>msg_role = ''user'', msg_text = JStr txt, msg_ts = Some (Date_now rt)\<rparr> st;
          st2 = st1\<lparr>input := [], isStreaming := True, streamIndicator := True\<rparr>;
          st3 = cw_appendMessage
                  \<lparr>msg_role = ''assistant'', msg_text = JStr [], msg_ts = Some (Date_now rt)\<rparr> st2;
          st4 = (case streamingAbortController st3 of
                   Some c \<Rightarrow> st3\<lparr>cw_aborted := insert c (cw_aborted st3)\<rparr>
                 | None \<Rightarrow> st3)
      in st4\<lparr>streamingAbortController := Some (cw_controllers st4),
             cw_controllers := Suc (cw_controllers st4)\<rparr>)"

definition stream_vars_init :: "'n stream_vars" where
  "stream_vars_init = \<lparr>cw_buffer = [], assistantBuffer = JStr []\<rparr>"

text \<open>The stream of an \<open>ok\<close> response, from the first read to the way out.\<close>

definition cw_stream :: "'n runtime \<Rightarrow> response \<Rightarrow> 'n chat_window \<Rightarrow> 'n chat_window" where
  "cw_stream rt resp st =
     (case cw_read rt (stream_vars_init, st) (body resp) of
        (s, Some e) \<Rightarrow> cw_catch rt e (snd s)
      | (s, None) \<Rightarrow>
          (case failure resp of
             Some e \<Rightarrow> cw_catch rt e (snd s)
           | None \<Rightarrow> cw_finish (snd (cw_leftover rt s))))"

definition handleSend :: "'n runtime \<Rightarrow> string option \<Rightarrow> js_error + response \<Rightarrow> 'n chat_window \<Rightarrow> 'n chat_window" where
  "handleSend rt sid fetched st =
     (if trim (input st) = [] then st
      else if sid = None \<or> sid = Some [] then st
      else
        (let st1 = cw_start rt (trim (input st)) st
         in case fetched of
              Inl e \<Rightarrow> cw_catch rt e st1
            | Inr resp \<Rightarrow> if \<not> ok resp then cw_not_ok rt resp st1 else cw_stream rt resp st1))"

section \<open>A runtime for the examples\<close>

text \<open>
  The examples below are evaluated in a runtime whose numbers are the integers, printed
  in decimal, whose clock stands still, and whose \<open>JSON.parse\<close> is given as a table.
\<close>

function show_nat :: "nat \<Rightarrow> string" where
  "show_nat n =
     (if n < 10 then [char_of (48 + n)] else show_nat (n div 10) @ [char_of (48 + n mod 10)])"
  by pat_completeness auto
termination
  by (relation "measure id") auto

definition show_int :: "int \<Rightarrow> string" where
  "show_int i = (if i < 0 then CHR ''-'' # show_nat (nat (- i)) else show_nat (nat i))"

definition example_runtime :: "(string \<times> int jsval) list \<Rightarrow> int runtime" where
  "example_runtime table =
     \<lparr>JSON_parse = map_of table,
      num_falsy = (\<lambda>n. n = 0),
      num_add = (\<lambda>a b. a + b),
      num_show = show_int,
      ToNumber = (\<lambda>v. if v = JBool True then 1 else 0),
      Date_now = 0,
      err_text = (\<lambda>e. ''stream failed'')\<rparr>"

text \<open>A transcript for the examples: a question and a partial answer.\<close>

definition hi_turns :: "int turn list" where
  "hi_turns = [\<lparr>msg_role = ''user'', msg_text = JStr ''q'', msg_ts = Some 0\<rparr>,
               \<lparr>msg_role = ''assistant'', msg_text = JStr ''Hi '', msg_ts = Some 0\<rparr>]"

section \<open>Auxiliary notions for the proofs\<close>

text \<open>Replacing the buffer of a run of \<open>handleSend\<close>.\<close>

definition set_buffer :: "string \<Rightarrow> 'n stream_vars \<times> 'n chat_window \<Rightarrow> 'n stream_vars \<times> 'n chat_window" where
  "set_buffer x s = ((fst s)\<lparr>cw_buffer := x\<rparr>, snd s)"

text \<open>What remains to be seen of a run: on an exception the buffer is gone.\<close>

definition seen :: "('n stream_vars \<times> 'n chat_window) \<times> js_error option \<Rightarrow> ('n stream_vars \<times> 'n chat_window) \<times> js_error option" where
  "seen r = (case snd r of None \<Rightarrow> r | Some e \<Rightarrow> (set_buffer [] (fst r), Some e))"

section \<open>Notions of the specification\<close>

text \<open>The text of the most recent assistant turn of a transcript, if it has one.\<close>

definition pending_text :: "'n turn list \<Rightarrow> 'n jsval option" where
  "pending_text ms =
     (case filter (\<lambda>m. msg_role m = ''assistant'') ms of [] \<Rightarrow> None | as \<Rightarrow> Some (msg_text (last as)))"

text \<open>The payload of the last event named \<open>done\<close> in a list of events, \<open>null\<close> when
  there is none.\<close>

definition last_done :: "'n stream_event list \<Rightarrow> 'n jsval" where
  "last_done evs = (case filter (\<lambda>e. event e = ''done'') evs of [] \<Rightarrow> JNull | ds \<Rightarrow> data (last ds))"

text \<open>
  The raw payload of a block as the specification describes it: of the trimmed, non-empty
  lines, in order, every line with the prefix \<open>data:\<close> gives that line without the prefix
  (and without the white space behind it), a line with the prefix \<open>event:\<close> gives nothing,
  and every other line gives itself; the lines are joined by line feeds.
\<close>

definition spec_payload_lines :: "string list \<Rightarrow> string list" where
  "spec_payload_lines ls =
     concat (map (\<lambda>l. if startsWith l ''data:'' then [strip_prefix ''data:'' l]
                        else if startsWith l ''event:'' then [] else [l]) ls)"

definition spec_raw_payload :: "string \<Rightarrow> string" where
  "spec_raw_payload block = join_lines (spec_payload_lines (block_lines block))"

text \<open>The event blocks of a text: the segments in front of each blank-line delimiter,
  and the rest behind the last one unless it is blank.\<close>

definition event_blocks :: "string \<Rightarrow> string list" where
  "event_blocks text =
     (let parts = split_blocks text
      in butlast parts @ (if trim (last parts) \<noteq> [] then [last parts] else []))"

text \<open>
  A well-formed event block as the interface describes it: a line \<open>event: <name>\<close>,
  lines \<open>data: <line>\<close>, each ended by a line feed, and a blank line at the end; the name
  and the data lines contain no line terminator. \<open>block_body\<close> is the block without the
  line feed of its last line and without the blank line.
\<close>

definition plain :: "string \<Rightarrow> bool" where
  "plain s = (CR \<notin> set s \<and> LF \<notin> set s)"

definition well_formed :: "string \<times> string list \<Rightarrow> bool" where
  "well_formed b = (plain (fst b) \<and> list_all plain (snd b))"

definition render_block :: "string \<times> string list \<Rightarrow> string" where
  "render_block b = ''event: '' @ fst b @ [LF] @ concat (map (\<lambda>d. ''data: '' @ d @ [LF]) (snd b)) @ [LF]"

definition block_body :: "string \<times> string list \<Rightarrow> string" where
  "block_body b = ''event: '' @ fst b @ concat (map (\<lambda>d. LF # ''data: '' @ d) (snd b))"

text \<open>A text in which no blank-line delimiter begins: it has no carriage return, and
  every line feed is followed by a character that is no line terminator.\<close>

fun no_blank_line :: "string \<Rightarrow> bool" where
  "no_blank_line [] = True"
| "no_blank_line [c] = (c \<noteq> CR \<and> c \<noteq> LF)"
| "no_blank_line (c # d # r) = (c \<noteq> CR \<and> (c = LF \<longrightarrow> d \<noteq> LF \<and> d \<noteq> CR) \<and> no_blank_line (d # r))"

section \<open>Properties of the splitter\<close>

lemma split_from_nonempty: "split_from m acc s \<noteq> []"
  by (induction m acc s rule: split_from.induct) (auto split: option.splits nat.splits)

lemma CR_neq_LF: "CR \<noteq> LF" by (simp add: CR_def LF_def)

lemma match_nl_LF: "match_nl (LF # r) = Some 1"
  by (simp add: match_nl_def)

lemma match_nl_CRLF: "match_nl (CR # LF # r) = Some 2"
  by (simp add: match_nl_def CR_neq_LF)

lemma match_nl_Some: "match_nl s = Some k \<Longrightarrow> (k = 1 \<and> (\<exists>r. s = LF # r)) \<or> (k = 2 \<and> (\<exists>r. s = CR # LF # r))"
  by (auto simp: match_nl_def split: list.splits if_splits)

lemma match_blank_LF: "match_blank (LF # r) = (case match_nl r of None \<Rightarrow> None | Some b \<Rightarrow> Some (1 + b))"
  by (simp add: match_blank_def match_nl_LF split: option.splits)

lemma match_blank_CRLF: "match_blank (CR # LF # r) = (case match_nl r of None \<Rightarrow> None | Some b \<Rightarrow> Some (2 + b))"
  by (simp add: match_blank_def match_nl_CRLF split: option.splits)

lemma match_blank_SomeD:
  assumes "match_blank s = Some k"
  shows "(k = 2 \<and> (\<exists>r. s = LF # LF # r)) \<or> (k = 3 \<and> (\<exists>r. s = LF # CR # LF # r)) \<or>
     (k = 3 \<and> (\<exists>r. s = CR # LF # LF # r)) \<or> (k = 4 \<and> (\<exists>r. s = CR # LF # CR # LF # r))"
proof -
  from assms obtain a b where a: "match_nl s = Some a" and b: "match_nl (drop a s) = Some b" and k: "k = a + b"
    by (auto simp: match_blank_def split: option.splits)
  from match_nl_Some[OF a] match_nl_Some[OF b] k show ?thesis by auto
qed

lemma match_blank_SomeI:
  "match_blank (LF # LF # r) = Some 2" "match_blank (LF # CR # LF # r) = Some 3"
  "match_blank (CR # LF # LF # r) = Some 3" "match_blank (CR # LF # CR # LF # r) = Some 4"
  by (simp_all add: match_blank_LF match_blank_CRLF match_nl_LF match_nl_CRLF)

lemma match_blank_app: "match_blank s = Some k \<Longrightarrow> match_blank (s @ q) = Some k"
  by (auto dest!: match_blank_SomeD simp: match_blank_SomeI)

lemma match_blank_pos: "match_blank s = Some k \<Longrightarrow> 0 < k \<and> k \<le> length s"
  by (auto dest!: match_blank_SomeD)

lemma match_blank_within: "match_blank (s @ q) = Some k \<Longrightarrow> k \<le> length s \<Longrightarrow> match_blank s = Some k"
  by (auto dest!: match_blank_SomeD simp: match_blank_SomeI append_eq_Cons_conv)

lemma match_blank_straddle:
  "match_blank (s @ q) = Some k \<Longrightarrow> length s < k \<Longrightarrow> 0 < j \<Longrightarrow> match_blank (drop j s) = None"
proof -
  assume m: "match_blank (s @ q) = Some k" and l: "length s < k" and j: "0 < j"
  have nl: "match_nl [] = None" "match_nl [LF] = Some 1" "match_nl [CR] = None" "match_nl [CR, LF] = Some 2"
     "match_nl [LF, CR] = Some 1"
    by (simp_all add: match_nl_def CR_neq_LF)
  have none: "match_blank [] = None" "match_blank [LF] = None" "match_blank [CR] = None"
     "match_blank [LF, CR] = None" "match_blank [CR, LF] = None"
    by (simp_all add: match_blank_def nl)
  from match_blank_SomeD[OF m] l
  have "s = [] \<or> s = [LF] \<or> s = [CR] \<or> s = [LF, CR] \<or> s = [CR, LF] \<or> s = [CR, LF, CR]"
    by (auto simp: append_eq_Cons_conv)
  then show ?thesis using j none
    by (cases j; cases "j - 1"; cases "j - 2") auto
qed


lemma split_single:
  "(\<forall>j<length cs. match_blank (drop j cs) = None) \<Longrightarrow> split_from match_blank acc cs = [rev acc @ cs]"
proof (induction cs arbitrary: acc)
  case Nil
  then show ?case by simp
next
  case (Cons c cs)
  from Cons.prems have h: "match_blank (c # cs) = None" by force
  from Cons.prems have "\<forall>j<length cs. match_blank (drop j cs) = None" by force
  from Cons.IH[OF this, of "c # acc"] h show ?case by simp
qed

lemma split_rescan:
  "(\<forall>k<length u. match_blank (drop k u @ t) = None) \<Longrightarrow>
     split_from match_blank acc (u @ t) = split_from match_blank (rev u @ acc) t"
proof (induction u arbitrary: acc)
  case Nil
  then show ?case by simp
next
  case (Cons x u)
  from Cons.prems have h: "match_blank (x # u @ t) = None" by force
  from Cons.prems have "\<forall>k<length u. match_blank (drop k u @ t) = None" by force
  from Cons.IH[OF this, of "x # acc"] h show ?case by simp
qed

lemma split_from_append:
  "(\<forall>k<length u. match_blank (drop k u @ p @ q) = None) \<Longrightarrow>
     split_from match_blank (rev u) (p @ q) =
       butlast (split_from match_blank (rev u) p) @
       split_from match_blank [] (last (split_from match_blank (rev u) p) @ q)"
proof (induction "length p" arbitrary: p u rule: less_induct)
  case less
  show ?case
  proof (cases p)
    case Nil
    with split_rescan[of u q "[]"] less.prems show ?thesis by simp
  next
    case (Cons c cs)
    show ?thesis
    proof (cases "match_blank (c # cs)")
      case (Some k)
      from match_blank_pos[OF Some] obtain n where k: "k = Suc n" and n: "n \<le> length cs"
        by (cases k) auto
      from match_blank_app[OF Some, of q] have whole: "match_blank (c # cs @ q) = Some (Suc n)"
        by (simp add: k)
      have "length (drop n cs) < length p" using Cons by simp
      from less.hyps[OF this, of "[]"]
      have ih: "split_from match_blank [] (drop n cs @ q) =
          butlast (split_from match_blank [] (drop n cs)) @
          split_from match_blank [] (last (split_from match_blank [] (drop n cs)) @ q)"
        by simp
      show ?thesis using Some whole ih n
        by (simp add: Cons k split_from_nonempty)
    next
      case None
      show ?thesis
      proof (cases "match_blank (c # cs @ q)")
        case None': None
        have "\<forall>k<length (u @ [c]). match_blank (drop k (u @ [c]) @ cs @ q) = None"
        proof (intro allI impI)
          fix k assume "k < length (u @ [c])"
          then consider "k < length u" | "k = length u" by fastforce
          then show "match_blank (drop k (u @ [c]) @ cs @ q) = None"
          proof cases
            case 1
            with less.prems show ?thesis by (simp add: Cons)
          next
            case 2
            with None' show ?thesis by simp
          qed
        qed
        from less.hyps[of cs "u @ [c]", OF _ this] None None' show ?thesis
          by (simp add: Cons)
      next
        case (Some k)
        have big: "length (c # cs) < k"
        proof (rule ccontr)
          assume "\<not> length (c # cs) < k"
          with match_blank_within[of "c # cs" q k] Some None show False by simp
        qed
        from match_blank_pos[of "c # cs @ q" k] Some obtain n where k: "k = Suc n"
          by (cases k) auto
        have "\<forall>j<length cs. match_blank (drop j cs) = None"
        proof (intro allI impI)
          fix j assume "j < length cs"
          from match_blank_straddle[of "c # cs" q k "Suc j"] Some big
          show "match_blank (drop j cs) = None" by simp
        qed
        from split_single[OF this] have single: "split_from match_blank (c # rev u) cs = [u @ c # cs]"
          by simp
        from split_rescan[of u "c # cs @ q" "[]"] less.prems
        have "split_from match_blank [] (u @ c # cs @ q) = split_from match_blank (rev u) (c # cs @ q)"
          by (simp add: Cons)
        with None single show ?thesis by (simp add: Cons)
      qed
    qed
  qed
qed

lemma split_blocks_append:
  "split_blocks (p @ q) = butlast (split_blocks p) @ split_blocks (last (split_blocks p) @ q)"
  using split_from_append[of "[]" p q] by (simp add: split_blocks_def)


lemma split_blocks_nonempty: "split_blocks s \<noteq> []"
  by (simp add: split_blocks_def split_from_nonempty)

lemma api_emit_buffer: "rd_buffer (api_emit rt r b) = rd_buffer r"
  by (simp add: api_emit_def Let_def)

lemma api_emit_set_buffer: "api_emit rt (r\<lparr>rd_buffer := x\<rparr>) b = (api_emit rt r b)\<lparr>rd_buffer := x\<rparr>"
  by (simp add: api_emit_def Let_def)

lemma foldl_api_emit_set_buffer:
  "foldl (api_emit rt) (r\<lparr>rd_buffer := x\<rparr>) bs = (foldl (api_emit rt) r bs)\<lparr>rd_buffer := x\<rparr>"
  by (induction bs arbitrary: r) (simp_all add: api_emit_set_buffer)

lemma api_chunk_buffer: "rd_buffer (api_chunk rt r c) = last (split_blocks (rd_buffer r @ c))"
  by (simp add: api_chunk_def Let_def foldl_api_emit_set_buffer)

lemma api_chunk_chunk: "api_chunk rt (api_chunk rt r c) d = api_chunk rt r (c @ d)"
proof -
  let ?B1 = "split_blocks (rd_buffer r @ c)"
  let ?B2 = "split_blocks (last ?B1 @ d)"
  have B: "split_blocks (rd_buffer r @ c @ d) = butlast ?B1 @ ?B2"
    using split_blocks_append[of "rd_buffer r @ c" d] by simp
  have bl: "butlast (butlast ?B1 @ ?B2) = butlast ?B1 @ butlast ?B2"
    by (simp add: butlast_append split_blocks_nonempty)
  have la: "last (butlast ?B1 @ ?B2) = last ?B2"
    by (simp add: split_blocks_nonempty)
  have "api_chunk rt (api_chunk rt r c) d =
      foldl (api_emit rt) ((api_chunk rt r c)\<lparr>rd_buffer := last ?B2\<rparr>) (butlast ?B2)"
    by (simp add: api_chunk_def[of rt "api_chunk rt r c"] Let_def api_chunk_buffer)
  also have "(api_chunk rt r c)\<lparr>rd_buffer := last ?B2\<rparr> =
      foldl (api_emit rt) (r\<lparr>rd_buffer := last ?B2\<rparr>) (butlast ?B1)"
    by (simp add: api_chunk_def Let_def foldl_api_emit_set_buffer)
  finally show ?thesis
    by (simp add: api_chunk_def[of rt r "c @ d"] Let_def B bl la)
qed

lemma foldl_api_chunk: "foldl (api_chunk rt) (api_chunk rt r c) cs = api_chunk rt r (c @ concat cs)"
  by (induction cs arbitrary: c) (simp_all add: api_chunk_chunk)

lemma split_blocks_Nil: "split_blocks [] = [[]]"
  by (simp add: split_blocks_def)

lemma api_chunk_init_Nil: "api_chunk rt reader_init [] = reader_init"
  by (simp add: api_chunk_def reader_init_def split_blocks_Nil)

lemma foldl_api_chunk_init: "foldl (api_chunk rt) reader_init chunks = api_chunk rt reader_init (concat chunks)"
  by (cases chunks) (simp_all add: foldl_api_chunk api_chunk_init_Nil)

section \<open>Chunk-boundary invariance\<close>

lemma run_events_append:
  "run_events f s (xs @ ys) =
     (case run_events f s xs of (s', Some e) \<Rightarrow> (s', Some e) | (s', None) \<Rightarrow> run_events f s' ys)"
  by (induction xs arbitrary: s) (auto split: sum.splits)

lemma on_message_buffer:
  "on_message rt p (set_buffer x s) = map_sum id (set_buffer x) (on_message rt p s)"
  by (cases s) (auto simp: on_message_def set_buffer_def and_then_def split: sum.splits)

lemma on_done_buffer:
  "on_done rt p (set_buffer x s) = map_sum id (set_buffer x) (on_done rt p s)"
  by (cases s) (auto simp: on_done_def set_buffer_def and_then_def split: sum.splits)

lemma handle_event_buffer:
  "handle_event rt (set_buffer x s) ev = map_sum id (set_buffer x) (handle_event rt s ev)"
  by (simp add: handle_event_def on_message_buffer on_done_buffer)
     (auto simp: set_buffer_def and_then_def split: sum.splits)

lemma set_buffer_twice: "set_buffer x (set_buffer y s) = set_buffer x s"
  by (simp add: set_buffer_def)

lemma run_events_buffer:
  "run_events (handle_event rt) (set_buffer x s) evs =
     (set_buffer x (fst (run_events (handle_event rt) s evs)), snd (run_events (handle_event rt) s evs))"
proof (induction evs arbitrary: s)
  case Nil
  then show ?case by simp
next
  case (Cons ev evs)
  show ?case
  proof (cases "handle_event rt s ev")
    case (Inl e)
    then show ?thesis by (simp add: handle_event_buffer)
  next
    case (Inr s')
    then show ?thesis by (simp add: handle_event_buffer Cons.IH)
  qed
qed

lemma cw_chunk_alt:
  "cw_chunk rt s chunk =
     run_events (handle_event rt) (set_buffer (last (split_blocks (cw_buffer (fst s) @ chunk))) s)
       (map (cw_block rt) (butlast (split_blocks (cw_buffer (fst s) @ chunk))))"
  by (simp add: cw_chunk_def Let_def set_buffer_def)

lemma cw_chunk_buffer:
  "cw_buffer (fst (fst (cw_chunk rt s c))) = last (split_blocks (cw_buffer (fst s) @ c))"
  by (simp add: cw_chunk_alt run_events_buffer, simp add: set_buffer_def)

lemma cw_chunk_append:
  "seen (cw_chunk rt s (c @ d)) =
     seen (case cw_chunk rt s c of (s', Some e) \<Rightarrow> (s', Some e) | (s', None) \<Rightarrow> cw_chunk rt s' d)"
proof -
  let ?B1 = "split_blocks (cw_buffer (fst s) @ c)"
  let ?B2 = "split_blocks (last ?B1 @ d)"
  let ?R1 = "run_events (handle_event rt) s (map (cw_block rt) (butlast ?B1))"
  have B: "split_blocks (cw_buffer (fst s) @ c @ d) = butlast ?B1 @ ?B2"
    using split_blocks_append[of "cw_buffer (fst s) @ c" d] by simp
  have bl: "butlast (butlast ?B1 @ ?B2) = butlast ?B1 @ butlast ?B2"
    by (simp add: butlast_append split_blocks_nonempty)
  have la: "last (butlast ?B1 @ ?B2) = last ?B2"
    by (simp add: split_blocks_nonempty)
  have c1: "cw_chunk rt s c = (set_buffer (last ?B1) (fst ?R1), snd ?R1)"
    by (simp add: cw_chunk_alt run_events_buffer)
  have whole: "cw_chunk rt s (c @ d) =
      (case (set_buffer (last ?B2) (fst ?R1), snd ?R1) of
         (s', Some e) \<Rightarrow> (s', Some e)
       | (s', None) \<Rightarrow> run_events (handle_event rt) s' (map (cw_block rt) (butlast ?B2)))"
    by (simp add: cw_chunk_alt B bl la run_events_append run_events_buffer)
  show ?thesis
  proof (cases "snd ?R1")
    case None
    have "cw_chunk rt (set_buffer (last ?B1) (fst ?R1)) d =
        run_events (handle_event rt) (set_buffer (last ?B2) (fst ?R1)) (map (cw_block rt) (butlast ?B2))"
      by (simp add: cw_chunk_alt set_buffer_twice) (simp add: set_buffer_def)
    with None show ?thesis by (simp add: whole c1)
  next
    case (Some e)
    then show ?thesis by (simp add: whole c1 seen_def set_buffer_twice)
  qed
qed

lemma seen_idem: "seen (case r of (s', Some e) \<Rightarrow> (s', Some e) | (s', None) \<Rightarrow> f s') =
   seen (case r of (s', Some e) \<Rightarrow> (s', Some e) | (s', None) \<Rightarrow> seen (f s'))"
  by (cases r) (auto simp: seen_def set_buffer_twice split: option.splits)

lemma cw_read_concat: "seen (cw_read rt s (c # cs)) = seen (cw_chunk rt s (c @ concat cs))"
proof (induction cs arbitrary: s c)
  case Nil
  then show ?case by (cases "cw_chunk rt s c") (auto split: option.splits)
next
  case (Cons d ds)
  have "seen (cw_read rt s (c # d # ds)) =
      seen (case cw_chunk rt s c of (s', Some e) \<Rightarrow> (s', Some e) | (s', None) \<Rightarrow> seen (cw_read rt s' (d # ds)))"
    by (subst seen_idem[symmetric]) simp
  also have "\<dots> = seen (case cw_chunk rt s c of (s', Some e) \<Rightarrow> (s', Some e) | (s', None) \<Rightarrow> seen (cw_chunk rt s' (d @ concat ds)))"
  proof (cases "cw_chunk rt s c")
    case (Pair s' e)
    then show ?thesis by (cases e) (simp_all add: Cons.IH del: cw_read.simps)
  qed
  also have "\<dots> = seen (cw_chunk rt s (c @ (d @ concat ds)))"
    by (subst seen_idem[symmetric]) (simp add: cw_chunk_append)
  finally show ?case by simp
qed

lemma cw_chunk_init_Nil: "cw_chunk rt (stream_vars_init, st) [] = ((stream_vars_init, st), None)"
  by (simp add: cw_chunk_def stream_vars_init_def split_blocks_Nil)

lemma cw_read_init: "seen (cw_read rt (stream_vars_init, st) chunks) = seen (cw_read rt (stream_vars_init, st) [concat chunks])"
proof (cases chunks)
  case Nil
  then show ?thesis by (simp add: cw_chunk_init_Nil)
next
  case (Cons c cs)
  then show ?thesis using cw_read_concat[of rt "(stream_vars_init, st)" c cs]
      cw_read_concat[of rt "(stream_vars_init, st)" "c @ concat cs" "[]"] by simp
qed

lemma cw_stream_seen:
  "cw_stream rt resp st =
     (case seen (cw_read rt (stream_vars_init, st) (body resp)) of
        (s, Some e) \<Rightarrow> cw_catch rt e (snd s)
      | (s, None) \<Rightarrow>
          (case failure resp of
             Some e \<Rightarrow> cw_catch rt e (snd s)
           | None \<Rightarrow> cw_finish (snd (cw_leftover rt s))))"
  by (cases "cw_read rt (stream_vars_init, st) (body resp)")
     (auto simp: cw_stream_def seen_def set_buffer_def split: option.splits)

lemma emitted_foldl_api_emit:
  "emitted (foldl (api_emit rt) r bs) = emitted r @ map (api_block rt) bs"
  by (induction bs arbitrary: r) (simp_all add: api_emit_def Let_def)

lemma emitted_read_stream:
  "emitted (read_stream rt chunks) = map (api_block rt) (event_blocks (concat chunks))"
proof -
  let ?r = "api_chunk rt reader_init (concat chunks)"
  have buf: "rd_buffer ?r = last (split_blocks (concat chunks))"
    by (simp add: api_chunk_buffer) (simp add: reader_init_def)
  have em: "emitted ?r = map (api_block rt) (butlast (split_blocks (concat chunks)))"
    by (simp add: api_chunk_def Let_def emitted_foldl_api_emit) (simp add: reader_init_def)
  have "read_stream rt chunks = api_finish rt ?r"
    by (simp add: read_stream_def foldl_api_chunk_init)
  then show ?thesis
    by (simp add: api_finish_def buf em event_blocks_def Let_def api_emit_def)
qed

lemma render_block_body: "render_block b = block_body b @ [LF, LF]"
proof -
  have "\<And>ds. [LF] @ concat (map (\<lambda>d. ''data: '' @ d @ [LF]) ds) = concat (map (\<lambda>d. LF # ''data: '' @ d) ds) @ [LF]"
    subgoal for ds by (induction ds) simp_all
    done
  then show ?thesis by (simp add: render_block_def block_body_def)
qed

lemma match_blank_plain: "c \<noteq> CR \<Longrightarrow> c \<noteq> LF \<Longrightarrow> match_blank (c # r) = None"
  by (simp add: match_blank_def match_nl_def)

lemma match_blank_LF_plain: "d \<noteq> CR \<Longrightarrow> d \<noteq> LF \<Longrightarrow> match_blank (LF # d # r) = None"
  by (simp add: match_blank_LF match_nl_def)

lemma split_no_blank_line:
  "no_blank_line u \<Longrightarrow>
     split_from match_blank acc (u @ LF # LF # rest) = (rev acc @ u) # split_from match_blank [] rest"
proof (induction u arbitrary: acc rule: no_blank_line.induct)
  case 1
  then show ?case by (simp add: match_blank_SomeI)
next
  case (2 c)
  then show ?case by (simp add: match_blank_plain match_blank_SomeI)
next
  case (3 c d r)
  from "3.prems" have "match_blank (c # d # r @ LF # LF # rest) = None"
    by (cases "c = LF") (simp_all add: match_blank_plain match_blank_LF_plain)
  with "3.IH"[of "c # acc"] "3.prems" show ?case by simp
qed

lemma no_blank_line_append: "no_blank_line u \<Longrightarrow> no_blank_line v \<Longrightarrow> no_blank_line (u @ v)"
proof (induction u rule: no_blank_line.induct)
  case 1
  then show ?case by simp
next
  case (2 c)
  then show ?case by (cases v) simp_all
next
  case (3 c d r)
  then show ?case by simp
qed

lemma no_blank_line_plain: "plain s \<Longrightarrow> no_blank_line s"
  by (induction s rule: no_blank_line.induct) (auto simp: plain_def)

lemma no_blank_line_data: "plain d \<Longrightarrow> no_blank_line (LF # ''data: '' @ d)"
proof -
  assume p: "plain d"
  have a: "no_blank_line (LF # ''data: '')" by (simp add: CR_def LF_def)
  from no_blank_line_append[OF a no_blank_line_plain[OF p]] show ?thesis
    by (simp only: append_Cons append_Nil)
qed

lemma no_blank_line_datas: "list_all plain ds \<Longrightarrow> no_blank_line (concat (map (\<lambda>d. LF # ''data: '' @ d) ds))"
proof (induction ds)
  case Nil
  then show ?case by simp
next
  case (Cons d ds)
  from Cons.prems have p: "plain d" "list_all plain ds" by simp_all
  from no_blank_line_append[OF no_blank_line_data[OF p(1)] Cons.IH[OF p(2)]]
  show ?case by (simp only: list.map concat.simps)
qed

lemma no_blank_line_body: "well_formed b \<Longrightarrow> no_blank_line (block_body b)"
proof -
  assume w: "well_formed b"
  have e: "no_blank_line ''event: ''" by (simp add: CR_def LF_def)
  from w have p: "plain (fst b)" "list_all plain (snd b)" by (simp_all add: well_formed_def)
  from no_blank_line_append[OF e no_blank_line_append[OF no_blank_line_plain[OF p(1)] no_blank_line_datas[OF p(2)]]]
  show ?thesis by (simp only: block_body_def)
qed

lemma split_blocks_rendered:
  "list_all well_formed bs \<Longrightarrow> split_blocks (concat (map render_block bs)) = map block_body bs @ [[]]"
proof (induction bs)
  case Nil
  then show ?case by (simp add: split_blocks_Nil)
next
  case (Cons b bs)
  from Cons.prems have "no_blank_line (block_body b)" by (simp add: no_blank_line_body)
  note first = split_no_blank_line[OF this, of "[]" "concat (map render_block bs)"]
  have whole: "concat (map render_block (b # bs)) = block_body b @ LF # LF # concat (map render_block bs)"
    by (simp only: list.map concat.simps render_block_body[of b] append_assoc append_Cons append_Nil)
  from Cons have "split_from match_blank [] (concat (map render_block bs)) = map block_body bs @ [[]]"
    by (simp add: split_blocks_def)
  with first show ?case unfolding split_blocks_def whole by simp
qed

lemma event_blocks_rendered:
  "list_all well_formed bs \<Longrightarrow> event_blocks (concat (map render_block bs)) = map block_body bs"
  by (simp add: event_blocks_def split_blocks_rendered trim_def)

lemma postChatStream_rendered:
  assumes "list_all well_formed bs" "concat chunks = concat (map render_block bs)"
  shows "fst (postChatStream rt (Inr \<lparr>ok = True, status_text = t, body = chunks, failure = None\<rparr>)) =
     map (api_block rt) (map block_body bs)"
  using assms by (simp add: postChatStream_def Let_def emitted_read_stream event_blocks_rendered)

text \<open>
  Claim C1. Chunk-boundary invariance. Whatever the chunks are and wherever their
  boundaries fall (inside a line, inside a delimiter, with empty chunks), both decoders
  behave as on the one chunk that is the concatenation: \<open>postChatStream\<close> passes the same
  events, with the same names and payloads and in the same order, to \<open>onEvent\<close> and
  settles to the same result, the hook that applies them reaches the same state, and
  \<open>handleSend\<close> leaves the component in the same state. For a stream that ends, the
  events are one for each event block of the whole text; when the chunks concatenate to
  N well-formed blocks these are exactly the N events of the N blocks, in their order.
\<close>

theorem chunk_boundary_invariance:
  "postChatStream rt (Inr (resp\<lparr>body := chunks\<rparr>)) =
     postChatStream rt (Inr (resp\<lparr>body := [concat chunks]\<rparr>)) \<and>
   fst (postChatStream rt (Inr \<lparr>ok = True, status_text = t, body = chunks, failure = None\<rparr>)) =
     map (api_block rt) (event_blocks (concat chunks)) \<and>
   (list_all well_formed bs \<and> concat chunks = concat (map render_block bs) \<longrightarrow>
      fst (postChatStream rt (Inr \<lparr>ok = True, status_text = t, body = chunks, failure = None\<rparr>)) =
        map (api_block rt) (map block_body bs)) \<and>
   send_stream rt (Inr (resp\<lparr>body := chunks\<rparr>)) hook =
     send_stream rt (Inr (resp\<lparr>body := [concat chunks]\<rparr>)) hook \<and>
   cw_stream rt (resp\<lparr>body := chunks\<rparr>) st = cw_stream rt (resp\<lparr>body := [concat chunks]\<rparr>) st"
proof (intro conjI impI)
  show same: "postChatStream rt (Inr (resp\<lparr>body := chunks\<rparr>)) =
      postChatStream rt (Inr (resp\<lparr>body := [concat chunks]\<rparr>))"
    by (cases "failure resp") (simp_all add: postChatStream_def read_stream_def foldl_api_chunk_init)
  show "send_stream rt (Inr (resp\<lparr>body := chunks\<rparr>)) hook =
      send_stream rt (Inr (resp\<lparr>body := [concat chunks]\<rparr>)) hook"
    by (simp only: send_stream_def same)
  show "fst (postChatStream rt (Inr \<lparr>ok = True, status_text = t, body = chunks, failure = None\<rparr>)) =
      map (api_block rt) (event_blocks (concat chunks))"
    by (simp add: postChatStream_def Let_def emitted_read_stream)
  show "cw_stream rt (resp\<lparr>body := chunks\<rparr>) st = cw_stream rt (resp\<lparr>body := [concat chunks]\<rparr>) st"
    using cw_read_init[of rt st chunks] by (simp add: cw_stream_seen)
next
  assume "list_all well_formed bs \<and> concat chunks = concat (map render_block bs)"
  then show "fst (postChatStream rt (Inr \<lparr>ok = True, status_text = t, body = chunks, failure = None\<rparr>)) =
      map (api_block rt) (map block_body bs)"
    using postChatStream_rendered[of bs chunks rt t] by blast
qed

text \<open>
  Two well-formed blocks, a \<open>message\<close> and a \<open>done\<close> event, cut into four chunks inside
  the first event name, inside the delimiter and inside a \<open>data:\<close> prefix.
\<close>

theorem chunk_boundary_invariance_witness:
  "list_all well_formed [(''message'', [''Hi'']), (''done'', [''{}''])] \<and>
   concat [''event: mess'', ''age'' @ [LF] @ ''data: Hi'' @ [LF], [LF] @ ''event: done'' @ [LF] @ ''da'',
           ''ta: {}'' @ [LF, LF]] =
     concat (map render_block [(''message'', [''Hi'']), (''done'', [''{}''])]) \<and>
   fst (postChatStream (example_runtime [(''{}'', JObj [])])
          (Inr \<lparr>ok = True, status_text = [],
                body = [''event: mess'', ''age'' @ [LF] @ ''data: Hi'' @ [LF],
                        [LF] @ ''event: done'' @ [LF] @ ''da'', ''ta: {}'' @ [LF, LF]],
                failure = None\<rparr>)) =
     [\<lparr>event = ''message'', data = JStr ''Hi''\<rparr>, \<lparr>event = ''done'', data = JObj []\<rparr>]"
proof -
  let ?bs = "[(''message'', [''Hi'']), (''done'', [''{}''])]"
  let ?chunks = "[''event: mess'', ''age'' @ [LF] @ ''data: Hi'' @ [LF], [LF] @ ''event: done'' @ [LF] @ ''da'',
      ''ta: {}'' @ [LF, LF]]"
  let ?rt = "example_runtime [(''{}'', JObj [])]"
  have h: "list_all well_formed ?bs \<and> concat ?chunks = concat (map render_block ?bs)"
    by code_simp
  have e: "map (api_block ?rt) (map block_body ?bs) =
      [\<lparr>event = ''message'', data = JStr ''Hi''\<rparr>, \<lparr>event = ''done'', data = JObj []\<rparr>]"
    by code_simp
  from chunk_boundary_invariance[where rt = ?rt and chunks = ?chunks and bs = ?bs and t = "[]"] h
  have "fst (postChatStream ?rt (Inr \<lparr>ok = True, status_text = [], body = ?chunks, failure = None\<rparr>)) =
      map (api_block ?rt) (map block_body ?bs)"
    by blast
  with h e show ?thesis by simp
qed

section \<open>What postChatStream resolves to\<close>

lemma last_done_snoc:
  "last_done (evs @ [ev]) = (if event ev = ''done'' then data ev else last_done evs)"
proof -
  have alt: "\<And>xs. last_done xs =
      (if filter (\<lambda>e. event e = ''done'') xs = [] then JNull
       else data (last (filter (\<lambda>e. event e = ''done'') xs)))"
    by (simp add: last_done_def split: list.splits)
  show ?thesis by (simp add: alt)
qed

lemma api_emit_done:
  "doneData r = last_done (emitted r) \<Longrightarrow>
     doneData (api_emit rt r b) = last_done (emitted (api_emit rt r b))"
  by (simp add: api_emit_def Let_def last_done_snoc)

lemma foldl_api_emit_done:
  "doneData r = last_done (emitted r) \<Longrightarrow>
     doneData (foldl (api_emit rt) r bs) = last_done (emitted (foldl (api_emit rt) r bs))"
  by (induction bs arbitrary: r) (simp_all add: api_emit_done)

lemma api_chunk_done:
  "doneData r = last_done (emitted r) \<Longrightarrow>
     doneData (api_chunk rt r c) = last_done (emitted (api_chunk rt r c))"
  by (simp add: api_chunk_def Let_def foldl_api_emit_done)

lemma foldl_api_chunk_done:
  "doneData r = last_done (emitted r) \<Longrightarrow>
     doneData (foldl (api_chunk rt) r cs) = last_done (emitted (foldl (api_chunk rt) r cs))"
  by (induction cs arbitrary: r) (simp_all add: api_chunk_done)

lemma read_stream_done:
  "doneData (read_stream rt chunks) = last_done (emitted (read_stream rt chunks))"
proof -
  have "doneData (reader_init :: 'a reader) = last_done (emitted (reader_init :: 'a reader))"
    by (simp add: reader_init_def last_done_def)
  from foldl_api_chunk_done[OF this] show ?thesis
    by (simp add: read_stream_def api_finish_def api_emit_done)
qed

text \<open>
  Claim C10. For every stream of an \<open>ok\<close> response that ends without a failed read, the
  promise returned by \<open>postChatStream\<close> resolves to the payload of the last event it has
  passed to \<open>onEvent\<close> under the effective name \<open>done\<close>, and to \<open>null\<close> when it has passed
  none. The events are those of \<open>read_stream\<close>, which include the one built from a
  non-blank buffer left at the end of the input.
\<close>

theorem postChatStream_resolves_to_last_done:
  "postChatStream rt (Inr \<lparr>ok = True, status_text = t, body = chunks, failure = None\<rparr>) =
     (emitted (read_stream rt chunks),
      Inr (case filter (\<lambda>e. event e = ''done'') (emitted (read_stream rt chunks)) of
             [] \<Rightarrow> JNull
           | ds \<Rightarrow> data (last ds)))"
  using read_stream_done[of rt chunks] by (simp add: postChatStream_def Let_def last_done_def)


section \<open>The raw payload of a block\<close>

lemma prefixes_exclusive: "startsWith l ''data:'' \<Longrightarrow> \<not> startsWith l ''event:''"
  by (cases l) (auto simp: startsWith_def)

lemma cw_lines_payload:
  "snd (foldl cw_line (evt, ds) ls) = ds @ spec_payload_lines ls"
proof (induction ls arbitrary: evt ds)
  case Nil
  then show ?case by (simp add: spec_payload_lines_def)
next
  case (Cons l ls)
  show ?case
    using Cons.IH prefixes_exclusive[of l]
    by (auto simp: cw_line_def spec_payload_lines_def)
qed

lemma api_lines_payload:
  "snd (foldl api_line (evt, ds) ls) =
     ds @ map (strip_prefix ''data:'') (filter (\<lambda>l. startsWith l ''data:'') ls)"
proof (induction ls arbitrary: evt ds)
  case Nil
  then show ?case by simp
next
  case (Cons l ls)
  show ?case
    using Cons.IH prefixes_exclusive[of l]
    by (auto simp: api_line_def)
qed

text \<open>
  Claim C6, as amended. The decoder in \<open>handleSend\<close> builds the raw payload as the
  specification says: the \<open>data:\<close> lines without their prefix and the lines with neither
  prefix, in order, joined by line feeds. The decoder in \<open>postChatStream\<close> takes the
  \<open>data:\<close> lines only and drops every line with neither prefix.
\<close>

theorem raw_payload_of_block:
  "cw_rawData block = spec_raw_payload block \<and>
   api_dataRaw block =
     join_lines (map (strip_prefix ''data:'') (filter (\<lambda>l. startsWith l ''data:'') (block_lines block)))"
  by (simp add: cw_rawData_def cw_scan_def cw_lines_payload spec_raw_payload_def
      api_dataRaw_def api_scan_def api_lines_payload)

text \<open>Claim C6 as stated fails for \<open>postChatStream\<close>: the block \<open>hello\<close> has the payload
  \<open>hello\<close> by the specification, and the empty payload in the code.\<close>

theorem api_drops_unprefixed_line: "api_dataRaw ''hello'' \<noteq> spec_raw_payload ''hello''"
  by code_simp

section \<open>Parsing the payload\<close>

lemma handle_event_raw_text:
  assumes "is_string (assistantBuffer (fst s))"
  shows "\<exists>s'. handle_event rt s \<lparr>event = n, data = JStr raw\<rparr> = Inr s' \<and> is_string (assistantBuffer (fst s'))"
proof -
  obtain vars w where s: "s = (vars, w)" by (cases s)
  from assms s obtain b where b: "assistantBuffer vars = JStr b" by (cases "assistantBuffer vars") simp_all
  show ?thesis
    by (simp add: s handle_event_def on_message_def on_done_def delta_of_def finalText_of_def
        and_then_def js_plus_def js_or_def b)
qed

lemma run_events_raw_text:
  assumes "is_string (assistantBuffer (fst s))" "JSON_parse rt = (\<lambda>_. None)"
  shows "snd (run_events (handle_event rt) s (map (cw_block rt) bs)) = None \<and>
     is_string (assistantBuffer (fst (fst (run_events (handle_event rt) s (map (cw_block rt) bs)))))"
  using assms(1)
proof (induction bs arbitrary: s)
  case Nil
  then show ?case by simp
next
  case (Cons b bs)
  have ev: "cw_block rt b = \<lparr>event = effective_event (fst (cw_scan b)), data = JStr (cw_rawData b)\<rparr>"
    by (simp add: cw_block_def parse_or_raw_def assms(2))
  from handle_event_raw_text[OF Cons.prems, of rt "effective_event (fst (cw_scan b))" "cw_rawData b"]
  obtain s' where s': "handle_event rt s (cw_block rt b) = Inr s'" "is_string (assistantBuffer (fst s'))"
    by (auto simp: ev)
  from Cons.IH[OF s'(2)] s'(1) show ?case by simp
qed

lemma cw_chunk_raw_text:
  assumes "is_string (assistantBuffer (fst s))" "JSON_parse rt = (\<lambda>_. None)"
  shows "snd (cw_chunk rt s c) = None \<and> is_string (assistantBuffer (fst (fst (cw_chunk rt s c))))"
  using run_events_raw_text[of "((fst s)\<lparr>cw_buffer := last (split_blocks (cw_buffer (fst s) @ c))\<rparr>, snd s)" rt
      "butlast (split_blocks (cw_buffer (fst s) @ c))"] assms
  by (simp add: cw_chunk_def Let_def)

lemma cw_read_raw_text:
  assumes "is_string (assistantBuffer (fst s))" "JSON_parse rt = (\<lambda>_. None)"
  shows "snd (cw_read rt s chunks) = None"
  using assms(1)
proof (induction chunks arbitrary: s)
  case Nil
  then show ?case by simp
next
  case (Cons c cs)
  from cw_chunk_raw_text[OF Cons.prems assms(2), of c]
  obtain s' where s': "cw_chunk rt s c = (s', None)" "is_string (assistantBuffer (fst s'))"
    by (cases "cw_chunk rt s c") auto
  from Cons.IH[OF s'(2)] s'(1) show ?case by simp
qed

lemma cw_read_unparseable:
  "snd (cw_read (rt\<lparr>JSON_parse := (\<lambda>_. None)\<rparr>) (stream_vars_init, w) chunks) = None"
  by (rule cw_read_raw_text) (simp_all add: stream_vars_init_def)

text \<open>
  Claim C9. The payload of the event of a block is what \<open>JSON.parse\<close> returns for the raw
  payload whenever it returns a value, \<open>null\<close> and \<open>0\<close> included, and the raw payload itself
  whenever \<open>JSON.parse\<close> throws; this holds in both decoders. No block is skipped and the
  stream is never cut short: \<open>postChatStream\<close> emits one event for every event block of
  the text, in order, however the payloads parse, and the read loop of \<open>handleSend\<close> runs
  to the end of a stream without an exception even when no payload at all parses.
\<close>

theorem payload_is_parse_or_raw:
  "(\<forall>v. JSON_parse rt (api_dataRaw b) = Some v \<longrightarrow> data (api_block rt b) = v) \<and>
   (JSON_parse rt (api_dataRaw b) = None \<longrightarrow> data (api_block rt b) = JStr (api_dataRaw b)) \<and>
   (\<forall>v. JSON_parse rt (cw_rawData b) = Some v \<longrightarrow> data (cw_block rt b) = v) \<and>
   (JSON_parse rt (cw_rawData b) = None \<longrightarrow> data (cw_block rt b) = JStr (cw_rawData b)) \<and>
   emitted (read_stream rt chunks) = map (api_block rt) (event_blocks (concat chunks)) \<and>
   snd (cw_read (rt\<lparr>JSON_parse := (\<lambda>_. None)\<rparr>) (stream_vars_init, w) chunks) = None"
  by (simp add: api_block_def cw_block_def parse_or_raw_def emitted_read_stream cw_read_unparseable)

text \<open>A runtime that parses \<open>0\<close> and \<open>null\<close> and nothing else, and a block for each case.\<close>

theorem payload_is_parse_or_raw_witness:
  "JSON_parse (example_runtime [(''null'', JNull), (''0'', JNum 0)]) (api_dataRaw ''data: 0'') = Some (JNum 0) \<and>
   data (api_block (example_runtime [(''null'', JNull), (''0'', JNum 0)]) ''data: 0'') = JNum 0 \<and>
   JSON_parse (example_runtime [(''null'', JNull), (''0'', JNum 0)]) (cw_rawData ''data: null'') = Some JNull \<and>
   data (cw_block (example_runtime [(''null'', JNull), (''0'', JNum 0)]) ''data: null'') = JNull \<and>
   JSON_parse (example_runtime [(''null'', JNull), (''0'', JNum 0)]) (api_dataRaw ''data: hello'') = None \<and>
   data (api_block (example_runtime [(''null'', JNull), (''0'', JNum 0)]) ''data: hello'') = JStr ''hello'' \<and>
   JSON_parse (example_runtime [(''null'', JNull), (''0'', JNum 0)]) (cw_rawData ''hello'') = None \<and>
   data (cw_block (example_runtime [(''null'', JNull), (''0'', JNum 0)]) ''hello'') = JStr ''hello''"
proof -
  let ?rt = "example_runtime [(''null'', JNull), (''0'', JNum 0)]"
  have raw: "api_dataRaw ''data: 0'' = ''0''" "cw_rawData ''data: null'' = ''null''"
    "api_dataRaw ''data: hello'' = ''hello''" "cw_rawData ''hello'' = ''hello''"
    by code_simp+
  have p: "JSON_parse ?rt ''0'' = Some (JNum 0)" "JSON_parse ?rt ''null'' = Some JNull"
    "JSON_parse ?rt ''hello'' = None"
    by (simp_all add: example_runtime_def)
  from payload_is_parse_or_raw[of ?rt "''data: 0''"] payload_is_parse_or_raw[of ?rt "''data: null''"]
    payload_is_parse_or_raw[of ?rt "''data: hello''"] payload_is_parse_or_raw[of ?rt "''hello''"]
  show ?thesis by (simp add: raw p)
qed

section \<open>The two reducers\<close>

lemma lastIndexOf_snoc: "lastIndexOf (xs @ [x]) x = Some (length xs)"
  by (induction xs) simp_all

lemma lastIndexOf_Some:
  "lastIndexOf xs x = Some i \<Longrightarrow> i < length xs"
  by (induction xs arbitrary: i) (auto split: option.splits if_splits)

lemma findIndex_rev_snoc: "P t \<Longrightarrow> findIndex P (rev (pre @ [t])) = Some 0"
  by simp

lemma snoc_last: "ms \<noteq> [] \<Longrightarrow> butlast ms @ [last ms] = ms"
  by simp

lemma replace_answer_pending:
  assumes "ms \<noteq> []" "msg_role (last ms) = ''assistant''"
  shows "replace_answer x ms = butlast ms @ [(last ms)\<lparr>msg_text := x\<rparr>]"
proof -
  obtain pre t where ms: "ms = pre @ [t]" using assms(1) by (metis snoc_last)
  with assms(2) have t: "msg_role t = ''assistant''" by simp
  have "lastIndexOf (map msg_role ms) ''assistant'' = Some (length pre)"
    using lastIndexOf_snoc[of "map msg_role pre" "''assistant''"] t by (simp add: ms)
  then show ?thesis by (simp add: replace_answer_def ms)
qed

lemma replaceLast_pending:
  assumes "cw_messages w \<noteq> []" "msg_role (last (cw_messages w)) = ''assistant''"
  shows "replaceLastAssistantText rt x w =
     w\<lparr>cw_messages := butlast (cw_messages w) @ [(last (cw_messages w))\<lparr>msg_text := x, msg_ts := Some (Date_now rt)\<rparr>]\<rparr>"
proof -
  obtain pre t where ms: "cw_messages w = pre @ [t]" using assms(1) by (metis snoc_last)
  with assms(2) have t: "msg_role t = ''assistant''" by simp
  show ?thesis by (simp add: replaceLastAssistantText_def ms t Let_def)
qed

lemma opt_prop_JStr_obj: "opt_prop d k = JStr a \<Longrightarrow> \<exists>kvs. d = JObj kvs"
  by (cases d) simp_all

lemma truthy_opt_prop_obj: "truthy rt (opt_prop d k) \<Longrightarrow> \<exists>kvs. d = JObj kvs"
  by (cases d) simp_all

lemma lastIndexOf_max:
  "lastIndexOf xs x = Some i \<Longrightarrow> i < length xs \<and> xs ! i = x"
  by (induction xs arbitrary: i) (auto split: option.splits if_splits)

lemma append_data_frame:
  assumes "append_data rt d ms = Inr ms'" "i < length ms" "lastIndexOf (map msg_role ms) ''assistant'' \<noteq> Some i"
  shows "i < length ms' \<and> ms' ! i = ms ! i"
  using assms
  by (auto simp: append_data_def and_then_def nth_append nth_list_update split: option.splits sum.splits)

lemma append_error_frame:
  assumes "append_error rt e ms = Inr ms'" "i < length ms" "lastIndexOf (map msg_role ms) ''assistant'' \<noteq> Some i"
  shows "i < length ms' \<and> ms' ! i = ms ! i"
  using assms
  by (auto simp: append_error_def and_then_def nth_append nth_list_update split: option.splits sum.splits)

lemma replace_answer_frame:
  assumes "i < length ms" "lastIndexOf (map msg_role ms) ''assistant'' \<noteq> Some i"
  shows "i < length (replace_answer x ms) \<and> replace_answer x ms ! i = ms ! i"
  using assms
  by (auto simp: replace_answer_def nth_append nth_list_update split: option.splits)

lemma onEvent_frame:
  assumes "onEvent rt st ev = Inr st'" "i < length (messages st)"
    "lastIndexOf (map msg_role (messages st)) ''assistant'' \<noteq> Some i"
  shows "i < length (messages st') \<and> messages st' ! i = messages st ! i"
proof -
  consider (c_session) "event ev = ''session'' \<and> truthy rt (opt_prop (data ev) ''sessionId'')"
    | (c_message) "\<not> (event ev = ''session'' \<and> truthy rt (opt_prop (data ev) ''sessionId''))" "event ev = ''message''"
    | (c_done) "\<not> (event ev = ''session'' \<and> truthy rt (opt_prop (data ev) ''sessionId''))" "event ev \<noteq> ''message''" "event ev = ''done''"
    | (c_error) "\<not> (event ev = ''session'' \<and> truthy rt (opt_prop (data ev) ''sessionId''))" "event ev \<noteq> ''message''" "event ev \<noteq> ''done''" "event ev = ''error''"
    | (c_other) "\<not> (event ev = ''session'' \<and> truthy rt (opt_prop (data ev) ''sessionId''))" "event ev \<noteq> ''message''" "event ev \<noteq> ''done''" "event ev \<noteq> ''error''"
    by blast
  then show ?thesis
  proof cases
    case c_session
    with assms show ?thesis by (auto simp: onEvent_def)
  next
    case c_message
    with assms(1) obtain ms where "append_data rt (data ev) (messages st) = Inr ms" "messages st' = ms"
      by (auto simp: onEvent_def and_then_def split: sum.splits)
    with append_data_frame[OF _ assms(2,3)] show ?thesis by simp
  next
    case c_done
    with assms(1) have "messages st' = messages st \<or>
        messages st' = replace_answer (opt_prop (data ev) ''answer'') (messages st)"
      by (auto simp: onEvent_def Let_def split: if_splits)
    with replace_answer_frame[OF assms(2,3)] assms(2) show ?thesis by auto
  next
    case c_error
    with assms(1) obtain e ms where "append_error rt e (messages st) = Inr ms" "messages st' = ms"
      by (auto simp: onEvent_def and_then_def split: sum.splits if_splits)
    with append_error_frame[OF _ assms(2,3)] show ?thesis by simp
  next
    case c_other
    with assms show ?thesis by (auto simp: onEvent_def)
  qed
qed

lemma replaceLast_pending_frame:
  assumes "cw_messages w \<noteq> []" "msg_role (last (cw_messages w)) = ''assistant''" "i < length (cw_messages w) - 1"
  shows "i < length (cw_messages (replaceLastAssistantText rt x w)) \<and>
     cw_messages (replaceLastAssistantText rt x w) ! i = cw_messages w ! i"
  using assms by (simp add: replaceLast_pending nth_append nth_butlast)

lemma handle_event_frame:
  assumes "handle_event rt (vars, w) ev = Inr (vars', w')"
    "cw_messages w \<noteq> []" "msg_role (last (cw_messages w)) = ''assistant''" "i < length (cw_messages w) - 1"
  shows "i < length (cw_messages w') \<and> cw_messages w' ! i = cw_messages w ! i"
proof -
  from assms(1) consider "w' = w" | x where "w' = replaceLastAssistantText rt x w"
    | m where "w' = cw_appendMessage m w"
    by (auto simp: handle_event_def on_message_def on_done_def and_then_def split: if_splits sum.splits)
  then show ?thesis
  proof cases
    case 1
    with assms(4) show ?thesis by simp
  next
    case 2
    with replaceLast_pending_frame[OF assms(2,3,4)] show ?thesis by simp
  next
    case 3
    with assms(4) show ?thesis by (auto simp: cw_appendMessage_def nth_append)
  qed
qed

lemma chat_window_appends_delta:
  assumes "cw_messages w \<noteq> []" "msg_role (last (cw_messages w)) = ''assistant''"
    "assistantBuffer vars = JStr b" "opt_prop p ''delta'' = JStr d" "d \<noteq> []"
  shows "handle_event rt (vars, w) \<lparr>event = ''message'', data = p\<rparr> =
     Inr (vars\<lparr>assistantBuffer := JStr (b @ d)\<rparr>,
          w\<lparr>cw_messages := butlast (cw_messages w) @
               [(last (cw_messages w))\<lparr>msg_text := JStr (b @ d), msg_ts := Some (Date_now rt)\<rparr>]\<rparr>)"
proof -
  from assms(4) obtain kvs where p: "p = JObj kvs" using opt_prop_JStr_obj by blast
  with assms(4,5) have "delta_of rt p = Inr (JStr d)"
    by (simp add: delta_of_def and_then_def)
  with assms(1,2,3) show ?thesis
    by (simp add: handle_event_def on_message_def and_then_def js_plus_def replaceLast_pending)
qed

lemma lastIndexOf_None: "lastIndexOf xs x = None \<Longrightarrow> x \<notin> set xs"
  by (induction xs) (auto split: option.splits if_splits)

lemma filter_role_None:
  "lastIndexOf (map msg_role ms) r = None \<Longrightarrow> filter (\<lambda>m. msg_role m = r) ms = []"
  using lastIndexOf_None[of "map msg_role ms" r] by (auto simp: filter_empty_conv)

lemma filter_role_update:
  "lastIndexOf (map msg_role ms) r = Some i \<Longrightarrow>
     filter (\<lambda>m. msg_role m = r) (ms[i := (ms ! i)\<lparr>msg_text := x\<rparr>]) \<noteq> [] \<and>
     last (filter (\<lambda>m. msg_role m = r) (ms[i := (ms ! i)\<lparr>msg_text := x\<rparr>])) = (ms ! i)\<lparr>msg_text := x\<rparr>"
proof (induction ms arbitrary: i)
  case Nil
  then show ?case by simp
next
  case (Cons m ms)
  show ?case
  proof (cases "lastIndexOf (map msg_role ms) r")
    case None
    with Cons.prems have i: "i = 0" and m: "msg_role m = r" by (auto split: if_splits)
    from filter_role_None[OF None] show ?thesis by (simp add: i m)
  next
    case (Some j)
    with Cons.prems have i: "i = Suc j" by simp
    from Cons.IH[OF Some] show ?thesis by (simp add: i)
  qed
qed

lemma pending_text_replace_answer: "pending_text (replace_answer x ms) = Some x"
proof (cases "lastIndexOf (map msg_role ms) ''assistant''")
  case None
  from filter_role_None[OF None] show ?thesis
    by (simp add: replace_answer_def None pending_text_def)
next
  case (Some i)
  from filter_role_update[OF Some, of x] show ?thesis
    by (auto simp: replace_answer_def Some pending_text_def split: list.splits)
qed

lemma lastIndexOf_pending:
  "lastIndexOf (map msg_role ms) ''assistant'' = Some i \<Longrightarrow> pending_text ms = Some (msg_text (ms ! i))"
proof -
  assume a: "lastIndexOf (map msg_role ms) ''assistant'' = Some i"
  have "ms[i := (ms ! i)\<lparr>msg_text := msg_text (ms ! i)\<rparr>] = ms" by simp
  with filter_role_update[OF a, of "msg_text (ms ! i)"] show ?thesis
    by (auto simp: pending_text_def split: list.splits)
qed

lemma pending_text_index:
  "pending_text ms = Some v \<Longrightarrow> \<exists>i. lastIndexOf (map msg_role ms) ''assistant'' = Some i \<and> msg_text (ms ! i) = v"
proof (cases "lastIndexOf (map msg_role ms) ''assistant''")
  case None
  assume "pending_text ms = Some v"
  with filter_role_None[OF None] show ?thesis by (simp add: pending_text_def)
next
  case (Some i)
  assume "pending_text ms = Some v"
  with lastIndexOf_pending[OF Some] Some show ?thesis by simp
qed

lemma append_data_pending:
  assumes "pending_text ms = Some (JStr t)"
  shows "\<exists>ms'. append_data rt (JStr s) ms = Inr ms' \<and> pending_text ms' = Some (JStr (t @ s))"
proof -
  from pending_text_index[OF assms] obtain i where
    i: "lastIndexOf (map msg_role ms) ''assistant'' = Some i" and t: "msg_text (ms ! i) = JStr t" by blast
  have plus: "js_plus rt (js_or rt (JStr t) (JStr [])) (JStr s) = Inr (JStr (t @ s))"
    by (simp add: js_plus_def js_or_def)
  have "append_data rt (JStr s) ms = Inr (ms[i := (ms ! i)\<lparr>msg_text := JStr (t @ s)\<rparr>])"
    by (simp add: append_data_def i t plus and_then_def)
  moreover from filter_role_update[OF i, of "JStr (t @ s)"]
  have "pending_text (ms[i := (ms ! i)\<lparr>msg_text := JStr (t @ s)\<rparr>]) = Some (JStr (t @ s))"
    by (auto simp: pending_text_def split: list.splits)
  ultimately show ?thesis by simp
qed

lemma onEvent_done:
  "\<exists>st1. onEvent rt st \<lparr>event = ''done'', data = d\<rparr> = Inr st1 \<and> loading st1 = False \<and>
     messages st1 = (if truthy rt (opt_prop d ''answer'')
                     then replace_answer (opt_prop d ''answer'') (messages st) else messages st)"
  by (simp add: onEvent_def Let_def)

lemma onEvent_message_pending:
  assumes "pending_text (messages st) = Some (JStr t)"
  shows "\<exists>st'. onEvent rt st \<lparr>event = ''message'', data = JStr s\<rparr> = Inr st' \<and>
     pending_text (messages st') = Some (JStr (t @ s))"
proof -
  from append_data_pending[OF assms, of rt s] obtain ms' where
    "append_data rt (JStr s) (messages st) = Inr ms'" "pending_text ms' = Some (JStr (t @ s))" by blast
  then show ?thesis by (simp add: onEvent_def and_then_def)
qed

lemma hook_message_after_done:
  assumes "opt_prop d ''answer'' = JStr a" "a \<noteq> []"
  shows "map_prod (\<lambda>s. pending_text (messages s)) id
     (run_events (onEvent rt) st [\<lparr>event = ''done'', data = d\<rparr>, \<lparr>event = ''message'', data = JStr s\<rparr>]) =
     (Some (JStr (a @ s)), None)"
proof -
  from onEvent_done[of rt st d] assms obtain st1 where
    st1: "onEvent rt st \<lparr>event = ''done'', data = d\<rparr> = Inr st1"
    and ms: "messages st1 = replace_answer (JStr a) (messages st)" by auto
  from ms have "pending_text (messages st1) = Some (JStr a)" by (simp add: pending_text_replace_answer)
  from onEvent_message_pending[OF this, of rt s] obtain st2 where
    "onEvent rt st1 \<lparr>event = ''message'', data = JStr s\<rparr> = Inr st2"
    "pending_text (messages st2) = Some (JStr (a @ s))" by blast
  with st1 show ?thesis by simp
qed

lemma cw_message_after_done:
  assumes "cw_messages w \<noteq> []" "msg_role (last (cw_messages w)) = ''assistant''"
    "opt_prop d ''answer'' = JStr a" "a \<noteq> []"
  shows "run_events (handle_event rt) (vars, w)
       [\<lparr>event = ''done'', data = d\<rparr>, \<lparr>event = ''message'', data = JStr s\<rparr>] =
     ((vars\<lparr>assistantBuffer := JStr (a @ s)\<rparr>,
       w\<lparr>cw_messages := butlast (cw_messages w) @
            [(last (cw_messages w))\<lparr>msg_text := JStr (a @ s), msg_ts := Some (Date_now rt)\<rparr>]\<rparr>), None)"
proof -
  let ?w1 = "w\<lparr>cw_messages := butlast (cw_messages w) @
            [(last (cw_messages w))\<lparr>msg_text := JStr a, msg_ts := Some (Date_now rt)\<rparr>]\<rparr>"
  from assms(3) obtain kvs where d: "d = JObj kvs" using opt_prop_JStr_obj by blast
  from assms(3,4) d have fin: "finalText_of rt d (assistantBuffer vars) = Inr (JStr a)"
    by (simp add: finalText_of_def and_then_def)
  from assms(1,2) have one: "handle_event rt (vars, w) \<lparr>event = ''done'', data = d\<rparr> =
      Inr (vars\<lparr>assistantBuffer := JStr a\<rparr>, ?w1)"
    by (simp add: handle_event_def on_done_def fin and_then_def replaceLast_pending)
  have w1: "cw_messages ?w1 \<noteq> []" "msg_role (last (cw_messages ?w1)) = ''assistant''"
    using assms(2) by simp_all
  have two: "handle_event rt (vars\<lparr>assistantBuffer := JStr a\<rparr>, ?w1) \<lparr>event = ''message'', data = JStr s\<rparr> =
      Inr (vars\<lparr>assistantBuffer := JStr (a @ s)\<rparr>,
           w\<lparr>cw_messages := butlast (cw_messages w) @
              [(last (cw_messages w))\<lparr>msg_text := JStr (a @ s), msg_ts := Some (Date_now rt)\<rparr>]\<rparr>)"
    by (simp add: handle_event_def on_message_def delta_of_def and_then_def js_plus_def
        replaceLast_pending[OF w1])
  show ?thesis by (simp add: one two)
qed

subsection \<open>Message events\<close>

text \<open>
  Claim C2 fails in the hook. After \<open>send\<close> has pushed the user turn and the empty
  assistant turn, two \<open>message\<close> events with the payloads \<open>{ "delta": "foo" }\<close> and
  \<open>{ "delta": "bar" }\<close> leave the assistant turn with the text
  \<open>[object Object][object Object]\<close>: \<open>onEvent\<close> appends \<open>String(data)\<close>, not the delta.
\<close>

theorem useChat_prints_object_for_delta:
  "run_events (onEvent (example_runtime [])) (send_start (example_runtime []) ''hi'' useChat_init)
     [\<lparr>event = ''message'', data = JObj [(''delta'', JStr ''foo'')]\<rparr>,
      \<lparr>event = ''message'', data = JObj [(''delta'', JStr ''bar'')]\<rparr>] =
   (\<lparr>sessionId = JNull,
     messages = [\<lparr>msg_role = ''user'', msg_text = JStr ''hi'', msg_ts = Some 0\<rparr>,
                 \<lparr>msg_role = ''assistant'', msg_text = JStr ''[object Object][object Object]'', msg_ts = Some 0\<rparr>],
     loading = True, sources = JArr [], abortRef = Some 0, controllers = 1, aborted = {}\<rparr>, None)"
  by code_simp

text \<open>The component does what the claim says: from the state \<open>handleSend\<close> sets up, the
  same two events give \<open>foobar\<close>.\<close>

lemma chat_window_foo_bar:
  "map (\<lambda>m. (msg_role m, msg_text m))
     (cw_messages (snd (fst (run_events (handle_event (example_runtime []))
        (stream_vars_init, cw_start (example_runtime []) ''hi'' ChatWindow_init)
        [\<lparr>event = ''message'', data = JObj [(''delta'', JStr ''foo'')]\<rparr>,
         \<lparr>event = ''message'', data = JObj [(''delta'', JStr ''bar'')]\<rparr>])))) =
   [(''user'', JStr ''hi''), (''assistant'', JStr ''foobar'')]"
  by code_simp

subsection \<open>The done event\<close>

text \<open>
  Claim C3, as amended. In the hook, for every state, a \<open>done\<close> event whose payload has
  a truthy \<open>answer\<close> (one that is present and not empty) leaves the most recent assistant
  turn with exactly the answer as its text, whatever text had accumulated, and clears
  \<open>loading\<close>; on a transcript that ends with the pending assistant turn only that turn
  changes. With a falsy \<open>answer\<close> the hook leaves all turns as they are and clears
  \<open>loading\<close>. In the component, on a transcript that ends with the pending assistant
  turn, a truthy \<open>answer\<close> becomes the text of that turn; for a payload object without a
  truthy \<open>answer\<close> the text becomes the \<open>text\<close> of the payload when that is truthy and the
  accumulated \<open>assistantBuffer\<close> otherwise. The component leaves \<open>isStreaming\<close> as it is at
  the event and has cleared it when the stream has ended.
\<close>

theorem done_replaces_text:
  "(truthy rt (opt_prop d ''answer'') \<longrightarrow>
      map_sum id (\<lambda>s. (pending_text (messages s), loading s)) (onEvent rt st \<lparr>event = ''done'', data = d\<rparr>) =
        Inr (Some (opt_prop d ''answer''), False)) \<and>
   (\<not> truthy rt (opt_prop d ''answer'') \<longrightarrow>
      map_sum id (\<lambda>s. (messages s, loading s)) (onEvent rt st \<lparr>event = ''done'', data = d\<rparr>) =
        Inr (messages st, False)) \<and>
   (messages st \<noteq> [] \<and> msg_role (last (messages st)) = ''assistant'' \<and> truthy rt (opt_prop d ''answer'') \<longrightarrow>
      map_sum id (\<lambda>s. (messages s, loading s)) (onEvent rt st \<lparr>event = ''done'', data = d\<rparr>) =
        Inr (butlast (messages st) @ [(last (messages st))\<lparr>msg_text := opt_prop d ''answer''\<rparr>], False)) \<and>
   (cw_messages w \<noteq> [] \<and> msg_role (last (cw_messages w)) = ''assistant'' \<and> truthy rt (opt_prop d ''answer'') \<longrightarrow>
      handle_event rt (vars, w) \<lparr>event = ''done'', data = d\<rparr> =
        Inr (vars\<lparr>assistantBuffer := opt_prop d ''answer''\<rparr>,
             w\<lparr>cw_messages := butlast (cw_messages w) @
                  [(last (cw_messages w))\<lparr>msg_text := opt_prop d ''answer'', msg_ts := Some (Date_now rt)\<rparr>]\<rparr>)) \<and>
   (cw_messages w \<noteq> [] \<and> msg_role (last (cw_messages w)) = ''assistant'' \<and> d = JObj kvs \<and>
    \<not> truthy rt (opt_prop d ''answer'') \<longrightarrow>
      handle_event rt (vars, w) \<lparr>event = ''done'', data = d\<rparr> =
        Inr (vars\<lparr>assistantBuffer := js_or rt (opt_prop d ''text'') (assistantBuffer vars)\<rparr>,
             w\<lparr>cw_messages := butlast (cw_messages w) @
                  [(last (cw_messages w))\<lparr>msg_text := js_or rt (opt_prop d ''text'') (assistantBuffer vars),
                                          msg_ts := Some (Date_now rt)\<rparr>]\<rparr>)) \<and>
   isStreaming (cw_stream rt resp w) = False"
proof (intro conjI impI)
  assume "truthy rt (opt_prop d ''answer'')"
  with onEvent_done[of rt st d] show
    "map_sum id (\<lambda>s. (pending_text (messages s), loading s)) (onEvent rt st \<lparr>event = ''done'', data = d\<rparr>) =
        Inr (Some (opt_prop d ''answer''), False)"
    by (auto simp: pending_text_replace_answer)
next
  assume "\<not> truthy rt (opt_prop d ''answer'')"
  with onEvent_done[of rt st d] show
    "map_sum id (\<lambda>s. (messages s, loading s)) (onEvent rt st \<lparr>event = ''done'', data = d\<rparr>) =
        Inr (messages st, False)"
    by auto
next
  assume "messages st \<noteq> [] \<and> msg_role (last (messages st)) = ''assistant'' \<and> truthy rt (opt_prop d ''answer'')"
  with onEvent_done[of rt st d] show
    "map_sum id (\<lambda>s. (messages s, loading s)) (onEvent rt st \<lparr>event = ''done'', data = d\<rparr>) =
        Inr (butlast (messages st) @ [(last (messages st))\<lparr>msg_text := opt_prop d ''answer''\<rparr>], False)"
    by (auto simp: replace_answer_pending)
next
  assume h: "cw_messages w \<noteq> [] \<and> msg_role (last (cw_messages w)) = ''assistant'' \<and> truthy rt (opt_prop d ''answer'')"
  then obtain kvs' where d: "d = JObj kvs'" using truthy_opt_prop_obj by blast
  from h d have fin: "finalText_of rt d (assistantBuffer vars) = Inr (opt_prop d ''answer'')"
    by (simp add: finalText_of_def and_then_def)
  from h show "handle_event rt (vars, w) \<lparr>event = ''done'', data = d\<rparr> =
        Inr (vars\<lparr>assistantBuffer := opt_prop d ''answer''\<rparr>,
             w\<lparr>cw_messages := butlast (cw_messages w) @
                  [(last (cw_messages w))\<lparr>msg_text := opt_prop d ''answer'', msg_ts := Some (Date_now rt)\<rparr>]\<rparr>)"
    by (simp add: handle_event_def on_done_def fin and_then_def replaceLast_pending)
next
  assume h: "cw_messages w \<noteq> [] \<and> msg_role (last (cw_messages w)) = ''assistant'' \<and> d = JObj kvs \<and>
    \<not> truthy rt (opt_prop d ''answer'')"
  then obtain d': "d = JObj kvs" and f: "\<not> truthy rt (opt_prop d ''answer'')" by blast
  have so: "strict_prop d ''answer'' = Inr (opt_prop d ''answer'')"
    "strict_prop d ''text'' = Inr (opt_prop d ''text'')" "typeof_object d"
    by (simp_all add: d')
  have fin: "finalText_of rt d (assistantBuffer vars) =
      Inr (js_or rt (opt_prop d ''text'') (assistantBuffer vars))"
    by (simp add: finalText_of_def and_then_def so f)
  from h have p: "cw_messages w \<noteq> []" "msg_role (last (cw_messages w)) = ''assistant''" by simp_all
  from p show "handle_event rt (vars, w) \<lparr>event = ''done'', data = d\<rparr> =
        Inr (vars\<lparr>assistantBuffer := js_or rt (opt_prop d ''text'') (assistantBuffer vars)\<rparr>,
             w\<lparr>cw_messages := butlast (cw_messages w) @
                  [(last (cw_messages w))\<lparr>msg_text := js_or rt (opt_prop d ''text'') (assistantBuffer vars),
                                          msg_ts := Some (Date_now rt)\<rparr>]\<rparr>)"
    by (simp add: handle_event_def on_done_def fin and_then_def replaceLast_pending)
next
  show "isStreaming (cw_stream rt resp w) = False"
    by (simp add: cw_stream_def cw_catch_def cw_finish_def split: prod.splits option.splits)
qed

text \<open>A transcript and two payloads, one with a truthy and one with an empty \<open>answer\<close>,
  where the hypotheses of the theorem hold.\<close>

theorem done_replaces_text_witness:
  "truthy (example_runtime []) (opt_prop (JObj [(''answer'', JStr ''final'')]) ''answer'') \<and>
   msg_role (last hi_turns) = ''assistant'' \<and>
   map_sum id (\<lambda>s. (pending_text (messages s), loading s))
     (onEvent (example_runtime []) (useChat_init\<lparr>messages := hi_turns\<rparr>)
        \<lparr>event = ''done'', data = JObj [(''answer'', JStr ''final'')]\<rparr>) =
     Inr (Some (JStr ''final''), False) \<and>
   map_sum id (\<lambda>s. (messages s, loading s))
     (onEvent (example_runtime []) (useChat_init\<lparr>messages := hi_turns\<rparr>)
        \<lparr>event = ''done'', data = JObj [(''answer'', JStr ''final'')]\<rparr>) =
     Inr ([\<lparr>msg_role = ''user'', msg_text = JStr ''q'', msg_ts = Some 0\<rparr>,
           \<lparr>msg_role = ''assistant'', msg_text = JStr ''final'', msg_ts = Some 0\<rparr>], False) \<and>
   handle_event (example_runtime [])
     (\<lparr>cw_buffer = [], assistantBuffer = JStr ''Hi ''\<rparr>, ChatWindow_init\<lparr>cw_messages := hi_turns\<rparr>)
     \<lparr>event = ''done'', data = JObj [(''answer'', JStr ''final'')]\<rparr> =
     Inr (\<lparr>cw_buffer = [], assistantBuffer = JStr ''final''\<rparr>,
          ChatWindow_init\<lparr>cw_messages := [\<lparr>msg_role = ''user'', msg_text = JStr ''q'', msg_ts = Some 0\<rparr>,
                                           \<lparr>msg_role = ''assistant'', msg_text = JStr ''final'', msg_ts = Some 0\<rparr>]\<rparr>) \<and>
   \<not> truthy (example_runtime []) (opt_prop (JObj [(''answer'', JStr []), (''text'', JStr ''T'')]) ''answer'') \<and>
   map_sum id (\<lambda>s. (messages s, loading s))
     (onEvent (example_runtime []) (useChat_init\<lparr>messages := hi_turns\<rparr>)
        \<lparr>event = ''done'', data = JObj [(''answer'', JStr []), (''text'', JStr ''T'')]\<rparr>) =
     Inr (hi_turns, False) \<and>
   handle_event (example_runtime [])
     (\<lparr>cw_buffer = [], assistantBuffer = JStr ''Hi ''\<rparr>, ChatWindow_init\<lparr>cw_messages := hi_turns\<rparr>)
     \<lparr>event = ''done'', data = JObj [(''answer'', JStr []), (''text'', JStr ''T'')]\<rparr> =
     Inr (\<lparr>cw_buffer = [], assistantBuffer = JStr ''T''\<rparr>,
          ChatWindow_init\<lparr>cw_messages := [\<lparr>msg_role = ''user'', msg_text = JStr ''q'', msg_ts = Some 0\<rparr>,
                                           \<lparr>msg_role = ''assistant'', msg_text = JStr ''T'', msg_ts = Some 0\<rparr>]\<rparr>)"
proof -
  let ?rt = "example_runtime [] :: int runtime"
  let ?d = "JObj [(''answer'', JStr ''final'')] :: int jsval"
  let ?e = "JObj [(''answer'', JStr []), (''text'', JStr ''T'')] :: int jsval"
  let ?st = "useChat_init\<lparr>messages := hi_turns\<rparr>"
  let ?w = "ChatWindow_init\<lparr>cw_messages := hi_turns\<rparr>"
  let ?vars = "\<lparr>cw_buffer = [], assistantBuffer = JStr ''Hi ''\<rparr> :: int stream_vars"
  have n: "Date_now ?rt = 0" by (simp add: example_runtime_def)
  have t: "truthy ?rt (opt_prop ?d ''answer'')" by simp
  have f: "\<not> truthy ?rt (opt_prop ?e ''answer'')" by simp
  have l: "messages ?st \<noteq> []" "msg_role (last (messages ?st)) = ''assistant''"
    "cw_messages ?w \<noteq> []" "msg_role (last (cw_messages ?w)) = ''assistant''" "msg_role (last hi_turns) = ''assistant''"
    by (simp_all add: hi_turns_def)
  note a = done_replaces_text[where rt = ?rt and d = ?d and st = ?st and w = ?w and vars = ?vars]
  note b = done_replaces_text[where rt = ?rt and d = ?e and st = ?st and w = ?w and vars = ?vars
      and kvs = "[(''answer'', JStr []), (''text'', JStr ''T'')]"]
  from a t l have 1: "map_sum id (\<lambda>s. (pending_text (messages s), loading s))
      (onEvent ?rt ?st \<lparr>event = ''done'', data = ?d\<rparr>) = Inr (Some (opt_prop ?d ''answer''), False)"
    by blast
  from a t l have 2: "map_sum id (\<lambda>s. (messages s, loading s)) (onEvent ?rt ?st \<lparr>event = ''done'', data = ?d\<rparr>) =
      Inr (butlast (messages ?st) @ [(last (messages ?st))\<lparr>msg_text := opt_prop ?d ''answer''\<rparr>], False)"
    by blast
  from a t l have 3: "handle_event ?rt (?vars, ?w) \<lparr>event = ''done'', data = ?d\<rparr> =
      Inr (?vars\<lparr>assistantBuffer := opt_prop ?d ''answer''\<rparr>,
           ?w\<lparr>cw_messages := butlast (cw_messages ?w) @
             [(last (cw_messages ?w))\<lparr>msg_text := opt_prop ?d ''answer'', msg_ts := Some (Date_now ?rt)\<rparr>]\<rparr>)"
    by blast
  from b f have 4: "map_sum id (\<lambda>s. (messages s, loading s)) (onEvent ?rt ?st \<lparr>event = ''done'', data = ?e\<rparr>) =
      Inr (messages ?st, False)"
    by blast
  from b f l have 5: "handle_event ?rt (?vars, ?w) \<lparr>event = ''done'', data = ?e\<rparr> =
      Inr (?vars\<lparr>assistantBuffer := js_or ?rt (opt_prop ?e ''text'') (assistantBuffer ?vars)\<rparr>,
           ?w\<lparr>cw_messages := butlast (cw_messages ?w) @
             [(last (cw_messages ?w))\<lparr>msg_text := js_or ?rt (opt_prop ?e ''text'') (assistantBuffer ?vars),
                                       msg_ts := Some (Date_now ?rt)\<rparr>]\<rparr>)"
    by blast
  show ?thesis
    unfolding 1 2 3 4 5 by (simp add: n hi_turns_def js_or_def)
qed

text \<open>
  Claim C3 as stated fails: the hook keeps the partial text \<open>Hi\<close> when the answer is the
  empty string, the component still has \<open>isStreaming\<close> set after the event, and with an
  empty \<open>answer\<close> the component takes the \<open>text\<close> of the payload.
\<close>

theorem done_counterexample:
  "map_sum id (\<lambda>s. map msg_text (messages s))
     (onEvent (example_runtime [])
        (useChat_init\<lparr>messages := [\<lparr>msg_role = ''user'', msg_text = JStr ''q'', msg_ts = Some 0\<rparr>,
                                    \<lparr>msg_role = ''assistant'', msg_text = JStr ''Hi '', msg_ts = Some 0\<rparr>],
                      loading := True\<rparr>)
        \<lparr>event = ''done'', data = JObj [(''answer'', JStr [])]\<rparr>) =
     Inr [JStr ''q'', JStr ''Hi ''] \<and>
   map_sum id (\<lambda>s. isStreaming (snd s))
     (handle_event (example_runtime [])
        (\<lparr>cw_buffer = [], assistantBuffer = JStr ''Hi ''\<rparr>,
         ChatWindow_init\<lparr>cw_messages := [\<lparr>msg_role = ''user'', msg_text = JStr ''q'', msg_ts = Some 0\<rparr>,
                                          \<lparr>msg_role = ''assistant'', msg_text = JStr ''Hi '', msg_ts = Some 0\<rparr>],
                         isStreaming := True, streamIndicator := True\<rparr>)
        \<lparr>event = ''done'', data = JObj [(''answer'', JStr ''final'')]\<rparr>) =
     Inr True \<and>
   map_sum id (\<lambda>s. map msg_text (cw_messages (snd s)))
     (handle_event (example_runtime [])
        (\<lparr>cw_buffer = [], assistantBuffer = JStr ''Hi ''\<rparr>,
         ChatWindow_init\<lparr>cw_messages := [\<lparr>msg_role = ''user'', msg_text = JStr ''q'', msg_ts = Some 0\<rparr>,
                                          \<lparr>msg_role = ''assistant'', msg_text = JStr ''Hi '', msg_ts = Some 0\<rparr>],
                         isStreaming := True, streamIndicator := True\<rparr>)
        \<lparr>event = ''done'', data = JObj [(''answer'', JStr []), (''text'', JStr ''T'')]\<rparr>) =
     Inr [JStr ''q'', JStr ''T'']"
  by code_simp

subsection \<open>The other turns\<close>

text \<open>
  Claim C7, as amended. An event that the hook applies leaves every turn other than the
  most recent assistant turn as it was. An event that the component applies to a
  transcript ending with the pending assistant turn leaves every turn in front of that
  one as it was. A \<open>done\<close> event closes nothing: a \<open>message\<close> event with the text \<open>s\<close> that
  follows a \<open>done\<close> event with the non-empty string \<open>a\<close> as answer leaves the text \<open>a\<close>
  followed by \<open>s\<close> in the most recent assistant turn of the hook and, on a transcript
  ending with the pending assistant turn, in that turn of the component.
\<close>

theorem other_turns_unchanged:
  "(onEvent rt st ev = Inr st' \<and> i < length (messages st) \<and>
      lastIndexOf (map msg_role (messages st)) ''assistant'' \<noteq> Some i \<longrightarrow>
        i < length (messages st') \<and> messages st' ! i = messages st ! i) \<and>
   (handle_event rt (vars, w) ev = Inr (vars', w') \<and> cw_messages w \<noteq> [] \<and>
      msg_role (last (cw_messages w)) = ''assistant'' \<and> i < length (cw_messages w) - 1 \<longrightarrow>
        i < length (cw_messages w') \<and> cw_messages w' ! i = cw_messages w ! i) \<and>
   (opt_prop d ''answer'' = JStr a \<and> a \<noteq> [] \<longrightarrow>
      map_prod (\<lambda>s. pending_text (messages s)) id
        (run_events (onEvent rt) st
           [\<lparr>event = ''done'', data = d\<rparr>, \<lparr>event = ''message'', data = JStr s\<rparr>]) =
        (Some (JStr (a @ s)), None)) \<and>
   (cw_messages w \<noteq> [] \<and> msg_role (last (cw_messages w)) = ''assistant'' \<and>
    opt_prop d ''answer'' = JStr a \<and> a \<noteq> [] \<longrightarrow>
      run_events (handle_event rt) (vars, w)
        [\<lparr>event = ''done'', data = d\<rparr>, \<lparr>event = ''message'', data = JStr s\<rparr>] =
        ((vars\<lparr>assistantBuffer := JStr (a @ s)\<rparr>,
          w\<lparr>cw_messages := butlast (cw_messages w) @
               [(last (cw_messages w))\<lparr>msg_text := JStr (a @ s), msg_ts := Some (Date_now rt)\<rparr>]\<rparr>), None))"
  using onEvent_frame[of rt st ev st' i] handle_event_frame[of rt vars w ev vars' w' i]
    hook_message_after_done[of d a rt st s] cw_message_after_done[of w d a rt vars s]
  by blast

text \<open>A state of each reducer where the hypotheses hold: the user turn at index 0 stays,
  and \<open>final\<close> becomes \<open>finalx\<close>.\<close>

theorem other_turns_unchanged_witness:
  "onEvent (example_runtime []) (send_start (example_runtime []) ''q'' useChat_init)
       \<lparr>event = ''message'', data = JStr ''x''\<rparr> =
     Inr ((send_start (example_runtime []) ''q'' useChat_init)
           \<lparr>messages := [\<lparr>msg_role = ''user'', msg_text = JStr ''q'', msg_ts = Some 0\<rparr>,
                          \<lparr>msg_role = ''assistant'', msg_text = JStr ''x'', msg_ts = Some 0\<rparr>]\<rparr>) \<and>
   lastIndexOf (map msg_role (messages (send_start (example_runtime []) ''q'' useChat_init))) ''assistant'' \<noteq> Some 0 \<and>
   messages ((send_start (example_runtime []) ''q'' useChat_init)
           \<lparr>messages := [\<lparr>msg_role = ''user'', msg_text = JStr ''q'', msg_ts = Some 0\<rparr>,
                          \<lparr>msg_role = ''assistant'', msg_text = JStr ''x'', msg_ts = Some 0\<rparr>]\<rparr>) ! 0 =
     messages (send_start (example_runtime []) ''q'' useChat_init) ! 0 \<and>
   handle_event (example_runtime []) (stream_vars_init, cw_start (example_runtime []) ''q'' ChatWindow_init)
       \<lparr>event = ''message'', data = JStr ''x''\<rparr> =
     Inr (\<lparr>cw_buffer = [], assistantBuffer = JStr ''x''\<rparr>,
          (cw_start (example_runtime []) ''q'' ChatWindow_init)
           \<lparr>cw_messages := [\<lparr>msg_role = ''user'', msg_text = JStr ''q'', msg_ts = Some 0\<rparr>,
                             \<lparr>msg_role = ''assistant'', msg_text = JStr ''x'', msg_ts = Some 0\<rparr>]\<rparr>) \<and>
   msg_role (last (cw_messages (cw_start (example_runtime []) ''q'' ChatWindow_init))) = ''assistant'' \<and>
   cw_messages ((cw_start (example_runtime []) ''q'' ChatWindow_init)
           \<lparr>cw_messages := [\<lparr>msg_role = ''user'', msg_text = JStr ''q'', msg_ts = Some 0\<rparr>,
                             \<lparr>msg_role = ''assistant'', msg_text = JStr ''x'', msg_ts = Some 0\<rparr>]\<rparr>) ! 0 =
     cw_messages (cw_start (example_runtime []) ''q'' ChatWindow_init) ! 0 \<and>
   opt_prop (JObj [(''answer'', JStr ''final'')] :: int jsval) ''answer'' = JStr ''final'' \<and>
   map_prod (\<lambda>s. pending_text (messages s)) id
     (run_events (onEvent (example_runtime [])) (send_start (example_runtime []) ''q'' useChat_init)
        [\<lparr>event = ''done'', data = JObj [(''answer'', JStr ''final'')]\<rparr>,
         \<lparr>event = ''message'', data = JStr ''x''\<rparr>]) =
     (Some (JStr ''finalx''), None) \<and>
   map_prod (\<lambda>s. map msg_text (cw_messages (snd s))) id
     (run_events (handle_event (example_runtime []))
        (stream_vars_init, cw_start (example_runtime []) ''q'' ChatWindow_init)
        [\<lparr>event = ''done'', data = JObj [(''answer'', JStr ''final'')]\<rparr>,
         \<lparr>event = ''message'', data = JStr ''x''\<rparr>]) =
     ([JStr ''q'', JStr ''finalx''], None)"
proof -
  let ?rt = "example_runtime [] :: int runtime"
  let ?st = "send_start ?rt ''q'' useChat_init"
  let ?w = "cw_start ?rt ''q'' ChatWindow_init"
  let ?ev = "\<lparr>event = ''message'', data = JStr ''x''\<rparr> :: int stream_event"
  let ?d = "JObj [(''answer'', JStr ''final'')] :: int jsval"
  let ?ms = "[\<lparr>msg_role = ''user'', msg_text = JStr ''q'', msg_ts = Some 0\<rparr>,
              \<lparr>msg_role = ''assistant'', msg_text = JStr ''x'', msg_ts = Some (0::int)\<rparr>] :: int turn list"
  let ?v' = "\<lparr>cw_buffer = [], assistantBuffer = JStr ''x''\<rparr> :: int stream_vars"
  have a: "onEvent ?rt ?st ?ev = Inr (?st\<lparr>messages := ?ms\<rparr>)"
    by code_simp
  have b: "handle_event ?rt (stream_vars_init, ?w) ?ev = Inr (?v', ?w\<lparr>cw_messages := ?ms\<rparr>)"
    by code_simp
  have c1: "0 < length (messages ?st)" by code_simp
  have c2: "lastIndexOf (map msg_role (messages ?st)) ''assistant'' \<noteq> Some 0" by code_simp
  have c3: "cw_messages ?w \<noteq> []" by code_simp
  have c4: "msg_role (last (cw_messages ?w)) = ''assistant''" by code_simp
  have c5: "0 < length (cw_messages ?w) - 1" by code_simp
  have c6: "opt_prop ?d ''answer'' = JStr ''final'' \<and> ''final'' \<noteq> []" by simp
  have c7: "cw_messages ?w =
      [\<lparr>msg_role = ''user'', msg_text = JStr ''q'', msg_ts = Some 0\<rparr>,
       \<lparr>msg_role = ''assistant'', msg_text = JStr [], msg_ts = Some 0\<rparr>]" by code_simp
  note t = other_turns_unchanged[where rt = ?rt and st = ?st and ev = ?ev and st' = "?st\<lparr>messages := ?ms\<rparr>"
      and i = 0 and vars = stream_vars_init and w = ?w and vars' = ?v' and w' = "?w\<lparr>cw_messages := ?ms\<rparr>"
      and d = ?d and a = "''final''" and s = "''x''"]
  from t a c1 c2 have d: "messages (?st\<lparr>messages := ?ms\<rparr>) ! 0 = messages ?st ! 0" by blast
  from t b c3 c4 c5 have e: "cw_messages (?w\<lparr>cw_messages := ?ms\<rparr>) ! 0 = cw_messages ?w ! 0" by blast
  from t c6 have f: "map_prod (\<lambda>s. pending_text (messages s)) id
      (run_events (onEvent ?rt) ?st [\<lparr>event = ''done'', data = ?d\<rparr>, ?ev]) = (Some (JStr (''final'' @ ''x'')), None)"
    by blast
  from t c3 c4 c6 have g: "run_events (handle_event ?rt) (stream_vars_init, ?w) [\<lparr>event = ''done'', data = ?d\<rparr>, ?ev] =
      ((stream_vars_init\<lparr>assistantBuffer := JStr (''final'' @ ''x'')\<rparr>,
        ?w\<lparr>cw_messages := butlast (cw_messages ?w) @
           [(last (cw_messages ?w))\<lparr>msg_text := JStr (''final'' @ ''x''), msg_ts := Some (Date_now ?rt)\<rparr>]\<rparr>), None)"
    by blast
  have h: "map_prod (\<lambda>s. map msg_text (cw_messages (snd s))) id
      (run_events (handle_event ?rt) (stream_vars_init, ?w) [\<lparr>event = ''done'', data = ?d\<rparr>, ?ev]) =
      ([JStr ''q'', JStr ''finalx''], None)"
    unfolding g by (simp add: c7)
  from f have f': "map_prod (\<lambda>s. pending_text (messages s)) id
      (run_events (onEvent ?rt) ?st [\<lparr>event = ''done'', data = ?d\<rparr>, ?ev]) = (Some (JStr ''finalx''), None)"
    by simp
  from c6 have c6': "opt_prop ?d ''answer'' = JStr ''final''" by simp
  show ?thesis by (intro conjI) (rule a c2 d b c4 e c6' f' h)+
qed

text \<open>
  Claim C7 as stated fails: in the hook a \<open>message\<close> event after \<open>done\<close> still changes
  the assistant turn (\<open>final\<close> becomes \<open>finalx\<close>), and in the component a \<open>message\<close> event
  after an \<open>error\<close> event overwrites the system turn that the \<open>error\<close> event has appended.
\<close>

theorem frame_counterexample:
  "map msg_text (messages (fst (run_events (onEvent (example_runtime []))
       (send_start (example_runtime []) ''q'' useChat_init)
       [\<lparr>event = ''done'', data = JObj [(''answer'', JStr ''final'')]\<rparr>]))) =
     [JStr ''q'', JStr ''final''] \<and>
   map msg_text (messages (fst (run_events (onEvent (example_runtime []))
       (send_start (example_runtime []) ''q'' useChat_init)
       [\<lparr>event = ''done'', data = JObj [(''answer'', JStr ''final'')]\<rparr>,
        \<lparr>event = ''message'', data = JStr ''x''\<rparr>]))) =
     [JStr ''q'', JStr ''finalx''] \<and>
   map (\<lambda>m. (msg_role m, msg_text m)) (cw_messages (snd (fst (run_events (handle_event (example_runtime []))
       (stream_vars_init, cw_start (example_runtime []) ''q'' ChatWindow_init)
       [\<lparr>event = ''error'', data = JStr ''boom''\<rparr>])))) =
     [(''user'', JStr ''q''), (''assistant'', JStr []), (''system'', JStr (warning_sign @ '' boom''))] \<and>
   map (\<lambda>m. (msg_role m, msg_text m)) (cw_messages (snd (fst (run_events (handle_event (example_runtime []))
       (stream_vars_init, cw_start (example_runtime []) ''q'' ChatWindow_init)
       [\<lparr>event = ''error'', data = JStr ''boom''\<rparr>, \<lparr>event = ''message'', data = JStr ''x''\<rparr>])))) =
     [(''user'', JStr ''q''), (''assistant'', JStr []), (''system'', JStr ''x'')]"
  by code_simp

subsection \<open>The session event\<close>

text \<open>
  Claim C8, as amended. In the hook a \<open>session\<close> event whose payload has a truthy
  \<open>sessionId\<close> makes that value the session identifier, whether one was set before or
  not, and one without a truthy \<open>sessionId\<close> changes nothing; the component ignores
  \<open>session\<close> events.
\<close>

theorem session_event_sets_id:
  "(truthy rt (opt_prop d ''sessionId'') \<longrightarrow>
      onEvent rt st \<lparr>event = ''session'', data = d\<rparr> = Inr (st\<lparr>sessionId := opt_prop d ''sessionId''\<rparr>)) \<and>
   (\<not> truthy rt (opt_prop d ''sessionId'') \<longrightarrow>
      onEvent rt st \<lparr>event = ''session'', data = d\<rparr> = Inr st) \<and>
   handle_event rt s \<lparr>event = ''session'', data = d\<rparr> = Inr s"
  by (simp add: onEvent_def handle_event_def)

text \<open>A payload with a truthy \<open>sessionId\<close>, and one without.\<close>

theorem session_event_sets_id_witness:
  "truthy (example_runtime []) (opt_prop (JObj [(''sessionId'', JStr ''b'')]) ''sessionId'') \<and>
   onEvent (example_runtime []) useChat_init \<lparr>event = ''session'', data = JObj [(''sessionId'', JStr ''b'')]\<rparr> =
     Inr (useChat_init\<lparr>sessionId := JStr ''b''\<rparr>) \<and>
   \<not> truthy (example_runtime []) (opt_prop (JStr ''b'') ''sessionId'') \<and>
   onEvent (example_runtime []) useChat_init \<lparr>event = ''session'', data = JStr ''b''\<rparr> = Inr useChat_init"
  using session_event_sets_id[of "example_runtime []" "JObj [(''sessionId'', JStr ''b'')]" useChat_init]
    session_event_sets_id[of "example_runtime []" "JStr ''b''" useChat_init]
  by simp

text \<open>Claim C8 as stated fails in the hook: a session identifier that is already set is
  overwritten.\<close>

theorem session_event_overwrites_id:
  "map_sum id sessionId
     (onEvent (example_runtime []) (useChat_init\<lparr>sessionId := JStr ''a''\<rparr>)
        \<lparr>event = ''session'', data = JObj [(''sessionId'', JStr ''b'')]\<rparr>) = Inr (JStr ''b'')"
  by code_simp

subsection \<open>Switching the session during a stream\<close>

text \<open>
  Claim C5, as amended. The component has no guard: after the effect has put the turn
  list of the newly selected session in place, a \<open>message\<close> event of the stream that was
  started for the previous session is applied to that list. With the text \<open>d\<close> as
  payload it sets the text of the last turn, when that is an assistant turn, to what the
  stale stream had accumulated followed by \<open>d\<close>, and it appends an assistant turn with
  that text when the list is empty.
\<close>

theorem stale_event_reaches_new_session:
  "(cw_messages (load_session sid loaded w) = [] \<and> assistantBuffer vars = JStr b \<longrightarrow>
      handle_event rt (vars, load_session sid loaded w) \<lparr>event = ''message'', data = JStr d\<rparr> =
        Inr (vars\<lparr>assistantBuffer := JStr (b @ d)\<rparr>,
             (load_session sid loaded w)
               \<lparr>cw_messages := [\<lparr>msg_role = ''assistant'', msg_text = JStr (b @ d), msg_ts = Some (Date_now rt)\<rparr>]\<rparr>)) \<and>
   (cw_messages (load_session sid loaded w) \<noteq> [] \<and>
    msg_role (last (cw_messages (load_session sid loaded w))) = ''assistant'' \<and> assistantBuffer vars = JStr b \<longrightarrow>
      handle_event rt (vars, load_session sid loaded w) \<lparr>event = ''message'', data = JStr d\<rparr> =
        Inr (vars\<lparr>assistantBuffer := JStr (b @ d)\<rparr>,
             (load_session sid loaded w)
               \<lparr>cw_messages := butlast (cw_messages (load_session sid loaded w)) @
                  [(last (cw_messages (load_session sid loaded w)))
                     \<lparr>msg_text := JStr (b @ d), msg_ts := Some (Date_now rt)\<rparr>]\<rparr>))"
proof (intro conjI impI)
  assume "cw_messages (load_session sid loaded w) = [] \<and> assistantBuffer vars = JStr b"
  then show "handle_event rt (vars, load_session sid loaded w) \<lparr>event = ''message'', data = JStr d\<rparr> =
        Inr (vars\<lparr>assistantBuffer := JStr (b @ d)\<rparr>,
             (load_session sid loaded w)
               \<lparr>cw_messages := [\<lparr>msg_role = ''assistant'', msg_text = JStr (b @ d), msg_ts = Some (Date_now rt)\<rparr>]\<rparr>)"
    by (simp add: handle_event_def on_message_def delta_of_def and_then_def js_plus_def
        replaceLastAssistantText_def)
next
  assume "cw_messages (load_session sid loaded w) \<noteq> [] \<and>
    msg_role (last (cw_messages (load_session sid loaded w))) = ''assistant'' \<and> assistantBuffer vars = JStr b"
  then show "handle_event rt (vars, load_session sid loaded w) \<lparr>event = ''message'', data = JStr d\<rparr> =
        Inr (vars\<lparr>assistantBuffer := JStr (b @ d)\<rparr>,
             (load_session sid loaded w)
               \<lparr>cw_messages := butlast (cw_messages (load_session sid loaded w)) @
                  [(last (cw_messages (load_session sid loaded w)))
                     \<lparr>msg_text := JStr (b @ d), msg_ts := Some (Date_now rt)\<rparr>]\<rparr>)"
    by (simp add: handle_event_def on_message_def delta_of_def and_then_def js_plus_def
        replaceLast_pending)
qed

text \<open>A switch to no session, and a switch to a session whose list ends with an
  assistant turn.\<close>

theorem stale_event_reaches_new_session_witness:
  "cw_messages (load_session None (Inl NetworkError) (cw_start (example_runtime []) ''q'' ChatWindow_init)) = [] \<and>
   map_sum id (\<lambda>s. cw_messages (snd s))
     (handle_event (example_runtime [])
        (\<lparr>cw_buffer = [], assistantBuffer = JStr ''Hel''\<rparr>,
         load_session None (Inl NetworkError) (cw_start (example_runtime []) ''q'' ChatWindow_init))
        \<lparr>event = ''message'', data = JStr ''lo''\<rparr>) =
     Inr [\<lparr>msg_role = ''assistant'', msg_text = JStr ''Hello'', msg_ts = Some 0\<rparr>] \<and>
   msg_role (last (cw_messages (load_session (Some ''b'')
       (Inr [\<lparr>msg_role = ''assistant'', msg_text = JStr ''answer in b'', msg_ts = Some 7\<rparr>])
       (cw_start (example_runtime []) ''q'' ChatWindow_init)))) = ''assistant'' \<and>
   map_sum id (\<lambda>s. cw_messages (snd s))
     (handle_event (example_runtime [])
        (\<lparr>cw_buffer = [], assistantBuffer = JStr ''Hel''\<rparr>,
         load_session (Some ''b'')
           (Inr [\<lparr>msg_role = ''assistant'', msg_text = JStr ''answer in b'', msg_ts = Some 7\<rparr>])
           (cw_start (example_runtime []) ''q'' ChatWindow_init))
        \<lparr>event = ''message'', data = JStr ''lo''\<rparr>) =
     Inr [\<lparr>msg_role = ''assistant'', msg_text = JStr ''Hello'', msg_ts = Some 0\<rparr>]"
proof -
  let ?rt = "example_runtime [] :: int runtime"
  let ?w = "cw_start ?rt ''q'' ChatWindow_init"
  let ?vars = "\<lparr>cw_buffer = [], assistantBuffer = JStr ''Hel''\<rparr> :: int stream_vars"
  let ?loaded = "Inr [\<lparr>msg_role = ''assistant'', msg_text = JStr ''answer in b'', msg_ts = Some 7\<rparr>]
      :: js_error + int turn list"
  have n: "Date_now ?rt = 0" by (simp add: example_runtime_def)
  have a: "cw_messages (load_session None (Inl NetworkError) ?w) = []"
    by (simp add: load_session_def)
  have b: "cw_messages (load_session (Some ''b'') ?loaded ?w) =
      [\<lparr>msg_role = ''assistant'', msg_text = JStr ''answer in b'', msg_ts = Some 7\<rparr>]"
    by (simp add: load_session_def)
  from stale_event_reaches_new_session[of None "Inl NetworkError" ?w ?vars "''Hel''" ?rt "''lo''"] a
  have c: "handle_event ?rt (?vars, load_session None (Inl NetworkError) ?w) \<lparr>event = ''message'', data = JStr ''lo''\<rparr> =
      Inr (?vars\<lparr>assistantBuffer := JStr ''Hello''\<rparr>,
           (load_session None (Inl NetworkError) ?w)
             \<lparr>cw_messages := [\<lparr>msg_role = ''assistant'', msg_text = JStr ''Hello'', msg_ts = Some 0\<rparr>]\<rparr>)"
    by (simp add: n)
  from stale_event_reaches_new_session[of "Some ''b''" ?loaded ?w ?vars "''Hel''" ?rt "''lo''"] b
  have d: "handle_event ?rt (?vars, load_session (Some ''b'') ?loaded ?w) \<lparr>event = ''message'', data = JStr ''lo''\<rparr> =
      Inr (?vars\<lparr>assistantBuffer := JStr ''Hello''\<rparr>,
           (load_session (Some ''b'') ?loaded ?w)
             \<lparr>cw_messages := [\<lparr>msg_role = ''assistant'', msg_text = JStr ''Hello'', msg_ts = Some 0\<rparr>]\<rparr>)"
    by (simp add: n)
  show ?thesis by (simp add: a b c d)
qed

text \<open>Claim C5 as stated fails: the last turn of session b is overwritten by the stream
  of session a.\<close>

theorem stale_event_counterexample:
  "map_sum id (\<lambda>s. map msg_text (cw_messages (snd s)))
     (handle_event (example_runtime [])
        (\<lparr>cw_buffer = [], assistantBuffer = JStr ''Hel''\<rparr>,
         load_session (Some ''session-b'')
           (Inr [\<lparr>msg_role = ''user'', msg_text = JStr ''question in b'', msg_ts = Some 0\<rparr>,
                 \<lparr>msg_role = ''assistant'', msg_text = JStr ''answer in b'', msg_ts = Some 0\<rparr>])
           (cw_start (example_runtime []) ''question in a'' ChatWindow_init))
        \<lparr>event = ''message'', data = JStr ''lo''\<rparr>) =
   Inr [JStr ''question in b'', JStr ''Hello'']"
  by code_simp

subsection \<open>Cancelling\<close>

text \<open>
  What holds of \<open>cancelStream\<close>: it changes no turn; when a controller is held it aborts
  that one, forgets it and clears \<open>loading\<close>, and without one it does nothing. When the
  aborted request then rejects, \<open>send\<close> appends one turn and leaves all turns that were
  there, the partial text included.
\<close>

lemma cancelStream_keeps_turns:
  "messages (cancelStream st) = messages st \<and>
   (abortRef st = None \<longrightarrow> cancelStream st = st) \<and>
   (abortRef st = Some c \<longrightarrow>
      cancelStream st = st\<lparr>aborted := insert c (aborted st), abortRef := None, loading := False\<rparr>) \<and>
   take (length (messages st)) (messages (send_rejected rt err (cancelStream st))) = messages st \<and>
   length (messages (send_rejected rt err (cancelStream st))) = Suc (length (messages st)) \<and>
   loading (send_rejected rt err (cancelStream st)) = False"
  by (simp add: cancelStream_def send_rejected_def appendMessage_def split: option.splits)

text \<open>
  Claim C4 fails in the hook. Every streaming \<open>send\<close> puts a new controller into
  \<open>abortRef\<close> and does not abort the one that was there, as \<open>handleSend\<close> of the component
  does. After a first \<open>send\<close> whose stream has delivered \<open>Hi\<close> and a second \<open>send\<close>,
  \<open>abortRef\<close> holds controller 1; \<open>cancelStream\<close> aborts controller 1 and not controller 0,
  whose signal the first request carries; the transcript is unchanged by the cancel, and
  a \<open>message\<close> event that the first stream delivers afterwards changes it.
\<close>

theorem cancel_misses_earlier_stream:
  "abortRef (send_start (example_runtime []) ''second''
      (fst (run_events (onEvent (example_runtime [])) (send_start (example_runtime []) ''first'' useChat_init)
             [\<lparr>event = ''message'', data = JStr ''Hi ''\<rparr>]))) = Some 1 \<and>
   aborted (cancelStream (send_start (example_runtime []) ''second''
      (fst (run_events (onEvent (example_runtime [])) (send_start (example_runtime []) ''first'' useChat_init)
             [\<lparr>event = ''message'', data = JStr ''Hi ''\<rparr>])))) = {1} \<and>
   map (\<lambda>m. (msg_role m, msg_text m))
     (messages (cancelStream (send_start (example_runtime []) ''second''
        (fst (run_events (onEvent (example_runtime [])) (send_start (example_runtime []) ''first'' useChat_init)
               [\<lparr>event = ''message'', data = JStr ''Hi ''\<rparr>]))))) =
     [(''user'', JStr ''first''), (''assistant'', JStr ''Hi ''),
      (''user'', JStr ''second''), (''assistant'', JStr [])] \<and>
   map (\<lambda>m. (msg_role m, msg_text m))
     (messages (fst (run_events (onEvent (example_runtime []))
        (cancelStream (send_start (example_runtime []) ''second''
           (fst (run_events (onEvent (example_runtime [])) (send_start (example_runtime []) ''first'' useChat_init)
                  [\<lparr>event = ''message'', data = JStr ''Hi ''\<rparr>]))))
        [\<lparr>event = ''message'', data = JStr ''there''\<rparr>]))) =
     [(''user'', JStr ''first''), (''assistant'', JStr ''Hi ''),
      (''user'', JStr ''second''), (''assistant'', JStr ''there'')]"
  by code_simp

end
